theory Spec2Isabelle
  imports Main "HOL-Library.Word" "HOL-Library.Sublist"
begin

section \<open>JavaScript strings\<close>

text \<open>
  A JavaScript string is a sequence of UTF-16 code units; \<open>length\<close>, \<open>trim\<close> and a
  regular expression without the \<open>u\<close> flag all work on code units.  String literals of
  the script are ASCII and are written \<open>js ''...''\<close>.
\<close>

type_synonym code_unit = "16 word"
type_synonym jsstring = "code_unit list"

definition js :: "string \<Rightarrow> jsstring" where
  "js s = map (\<lambda>c. of_nat (of_char c)) s"

text \<open>
  The code units that \<open>String.prototype.trim\<close> strips and that the class \<open>\s\<close>
  matches: ECMAScript's WhiteSpace and LineTerminator (tab, LF, VT, FF, CR, space, NBSP,
  U+1680, U+2000..U+200A, U+2028, U+2029, U+202F, U+205F, U+3000, U+FEFF).
\<close>

definition is_space :: "code_unit \<Rightarrow> bool" where
  "is_space c \<longleftrightarrow>
     c = 9 \<or> c = 10 \<or> c = 11 \<or> c = 12 \<or> c = 13 \<or> c = 32 \<or> c = 160 \<or> c = 5760 \<or>
     (8192 \<le> c \<and> c \<le> 8202) \<or> c = 8232 \<or> c = 8233 \<or> c = 8239 \<or> c = 8287 \<or>
     c = 12288 \<or> c = 65279"

definition trim :: "jsstring \<Rightarrow> jsstring" where
  "trim s = rev (dropWhile is_space (rev (dropWhile is_space s)))"

abbreviation AT :: code_unit where "AT \<equiv> 64"
abbreviation DOT :: code_unit where "DOT \<equiv> 46"

section \<open>Utility functions\<close>

subsection \<open>The e-mail pattern\<close>

text \<open>
  The pattern \<^verbatim>\<open>/^[^\s@]+@[^\s@]+\.[^\s@]+$/\<close> is a sequence of terms between the
  anchors \<open>^\<close> and \<open>$\<close>.  Each term is one atom, possibly under the greedy quantifier
  \<open>+\<close>; an atom is a literal code unit or a negated character class.
\<close>

datatype class_item = WhiteSpace | Single code_unit

datatype atom = Chr code_unit | NotIn "class_item list"

datatype rterm = One atom | OneOrMore atom

fun item_matches :: "class_item \<Rightarrow> code_unit \<Rightarrow> bool" where
  "item_matches WhiteSpace c = is_space c"
| "item_matches (Single d) c = (c = d)"

fun atom_matches :: "atom \<Rightarrow> code_unit \<Rightarrow> bool" where
  "atom_matches (Chr d) c = (c = d)"
| "atom_matches (NotIn items) c = (\<not> list_ex (\<lambda>i. item_matches i c) items)"

text \<open>
  Backtracking match of a term list against the rest of the input, as the ECMAScript
  matcher does it: \<open>+\<close> first tries to take one more code unit and falls back to the
  continuation.  The empty term list is the anchor \<open>$\<close>: it matches at the end of the
  input only.  The anchor \<open>^\<close> (no \<open>m\<close> flag) is the start of the input, where
  \<open>regex_test\<close> starts the match.
\<close>

fun rmatch :: "rterm list \<Rightarrow> jsstring \<Rightarrow> bool" where
  "rmatch [] s = (s = [])"
| "rmatch (One a # ts) [] = False"
| "rmatch (One a # ts) (c # cs) = (atom_matches a c \<and> rmatch ts cs)"
| "rmatch (OneOrMore a # ts) [] = False"
| "rmatch (OneOrMore a # ts) (c # cs) =
     (atom_matches a c \<and> (rmatch (OneOrMore a # ts) cs \<or> rmatch ts cs))"

definition regex_test :: "rterm list \<Rightarrow> jsstring \<Rightarrow> bool" where
  "regex_test r s = rmatch r s"

definition emailRegex :: "rterm list" where
  "emailRegex =
     [OneOrMore (NotIn [WhiteSpace, Single AT]), One (Chr AT),
      OneOrMore (NotIn [WhiteSpace, Single AT]), One (Chr DOT),
      OneOrMore (NotIn [WhiteSpace, Single AT])]"

definition isValidEmail :: "jsstring \<Rightarrow> bool" where
  "isValidEmail email = regex_test emailRegex email"

section \<open>Form validation\<close>

text \<open>
  A form field as the script uses it: its \<open>id\<close>, \<open>name\<close>, \<open>type\<close> and \<open>value\<close>, the
  default value that \<open>form.reset()\<close> restores, the presence of the \<open>required\<close>
  attribute and the \<open>aria-invalid\<close> attribute (absent until first set).
\<close>

record field =
  fid :: jsstring
  fname :: jsstring
  ftype :: jsstring
  fvalue :: jsstring
  defaultValue :: jsstring
  required :: bool
  aria_invalid :: "jsstring option"

text \<open>
  The part of the document \<open>validateField\<close> touches besides the field: the text content
  of the elements found by \<open>document.getElementById\<close>, by id.
\<close>

type_synonym error_elements = "jsstring \<rightharpoonup> jsstring"

definition js_bool :: "bool \<Rightarrow> jsstring" where
  "js_bool b = (if b then js ''true'' else js ''false'')"

text \<open>Lines 231 to 250: the pair \<open>(errorMessage, isValid)\<close> after the chain of checks.\<close>

definition checkField :: "field \<Rightarrow> jsstring \<times> bool" where
  "checkField f =
     (let v = trim (fvalue f) in
      if required f \<and> v = [] then (js ''This field is required'', False)
      else if ftype f = js ''email'' \<and> v \<noteq> [] \<and> \<not> isValidEmail v
        then (js ''Please enter a valid email address'', False)
      else if fid f = js ''message'' \<and> v \<noteq> [] \<and> length v < 10
        then (js ''Message must be at least 10 characters'', False)
      else ([], True))"

text \<open>
  Lines 232 and 255 to 257: the element with id \<open>`${field.id}-error`\<close>, when the document
  has one, receives the message.
\<close>

definition setErrorText :: "jsstring \<Rightarrow> jsstring \<Rightarrow> error_elements \<Rightarrow> error_elements" where
  "setErrorText fieldId errorMessage doc =
     (let eid = fieldId @ js ''-error'' in
      case doc eid of None \<Rightarrow> doc | Some _ \<Rightarrow> doc(eid \<mapsto> errorMessage))"

text \<open>
  \<open>validateField\<close> with its effects: the field's \<open>aria-invalid\<close> attribute is set to the
  string of \<open>!isValid\<close>, the error element receives the message, and \<open>isValid\<close> is
  returned.
\<close>

definition validateField :: "field \<Rightarrow> error_elements \<Rightarrow> bool \<times> field \<times> error_elements" where
  "validateField f doc =
     (let (errorMessage, isValid) = checkField f
      in (isValid, f\<lparr>aria_invalid := Some (js_bool (\<not> isValid))\<rparr>,
          setErrorText (fid f) errorMessage doc))"

text \<open>
  The three failure rules in the words of the specification: required and empty after
  trimming; e-mail typed, non-empty and failing the pattern; the message field, non-empty
  and shorter than 10 after trimming.
\<close>

definition rule_required :: "field \<Rightarrow> bool" where
  "rule_required f \<longleftrightarrow> required f \<and> trim (fvalue f) = []"

definition rule_email :: "field \<Rightarrow> bool" where
  "rule_email f \<longleftrightarrow>
     ftype f = js ''email'' \<and> trim (fvalue f) \<noteq> [] \<and> \<not> isValidEmail (trim (fvalue f))"

definition rule_message :: "field \<Rightarrow> bool" where
  "rule_message f \<longleftrightarrow>
     fid f = js ''message'' \<and> trim (fvalue f) \<noteq> [] \<and> length (trim (fvalue f)) < 10"

text \<open>The e-mail shape in the words of the specification, and the shape the pattern has.\<close>

definition local_part :: "jsstring \<Rightarrow> jsstring" where
  "local_part s = takeWhile (\<lambda>c. c \<noteq> AT) s"

definition domain_part :: "jsstring \<Rightarrow> jsstring" where
  "domain_part s = drop 1 (dropWhile (\<lambda>c. c \<noteq> AT) s)"

text \<open>
  As the specification words it: no whitespace, exactly one \<open>@\<close> with non-empty parts on
  both sides, at least one \<open>.\<close> after the \<open>@\<close>.
\<close>

definition claimed_email_shape :: "jsstring \<Rightarrow> bool" where
  "claimed_email_shape s \<longleftrightarrow>
     \<not> list_ex is_space s \<and> count_list s AT = 1 \<and> local_part s \<noteq> [] \<and>
     domain_part s \<noteq> [] \<and> DOT \<in> set (domain_part s)"

text \<open>
  What the pattern accepts: as above, but the part after the \<open>@\<close> must hold a \<open>.\<close>
  that is neither its first nor its last code unit.
\<close>

definition email_shape :: "jsstring \<Rightarrow> bool" where
  "email_shape s \<longleftrightarrow>
     \<not> list_ex is_space s \<and> count_list s AT = 1 \<and> local_part s \<noteq> [] \<and>
     DOT \<in> set (butlast (tl (domain_part s)))"

text \<open>A run of code units that are neither whitespace nor \<open>@\<close>.\<close>

definition plain :: "jsstring \<Rightarrow> bool" where
  "plain u \<longleftrightarrow> (\<forall>c\<in>set u. \<not> is_space c \<and> c \<noteq> AT)"

section \<open>Debounce\<close>

text \<open>
  The timers of the page as \<open>setTimeout\<close> and \<open>clearTimeout\<close> see them, for one debounced
  function: the closure variable \<open>timeout\<close> (\<open>undefined\<close> until the first call), the
  pending timers (id, due time and the arguments captured by the \<open>later\<close> closure), the
  next timer id, and the calls of \<open>func\<close> made so far, each with its arguments and the
  time of the call.  Times are in milliseconds.
\<close>

record 'a debounced =
  timeout :: "nat option"
  pending :: "(nat \<times> nat \<times> 'a) list"
  nextTimer :: nat
  calls :: "('a \<times> nat) list"

definition debounce :: "'a debounced" where
  "debounce = \<lparr>timeout = None, pending = [], nextTimer = 1, calls = []\<rparr>"

text \<open>
  \<open>clearTimeout(id)\<close> cancels the pending timer with that id; with \<open>undefined\<close> or the id
  of a timer that has fired or was cancelled it does nothing.
\<close>

definition clearTimeout :: "nat option \<Rightarrow> 'a debounced \<Rightarrow> 'a debounced" where
  "clearTimeout h s =
     (case h of None \<Rightarrow> s
      | Some i \<Rightarrow> s\<lparr>pending := filter (\<lambda>(j, due, args). j \<noteq> i) (pending s)\<rparr>)"

text \<open>\<open>setTimeout(later, wait)\<close> at time \<open>now\<close> returns a fresh id.\<close>

definition setTimeout :: "'a \<Rightarrow> nat \<Rightarrow> nat \<Rightarrow> 'a debounced \<Rightarrow> nat \<times> 'a debounced" where
  "setTimeout args wait now s =
     (nextTimer s,
      s\<lparr>pending := pending s @ [(nextTimer s, now + wait, args)],
        nextTimer := Suc (nextTimer s)\<rparr>)"

text \<open>The closure \<open>later\<close> of the source, run at time \<open>t\<close>: lines 32 to 35.\<close>

definition later :: "'a \<Rightarrow> nat \<Rightarrow> 'a debounced \<Rightarrow> 'a debounced" where
  "later args t s =
     (let s1 = clearTimeout (timeout s) s
      in s1\<lparr>calls := calls s1 @ [(args, t)]\<rparr>)"

text \<open>
  The closure of a standard debounce, in the words of the specification (cancel the
  pending scheduled call, schedule a new one after the wait interval): the scheduled
  callback only calls \<open>func\<close>.
\<close>

definition later_standard :: "'a \<Rightarrow> nat \<Rightarrow> 'a debounced \<Rightarrow> 'a debounced" where
  "later_standard args t s = s\<lparr>calls := calls s @ [(args, t)]\<rparr>"

text \<open>\<open>executedFunction(...args)\<close> called at time \<open>now\<close>: lines 36 and 37.\<close>

definition executedFunction :: "nat \<Rightarrow> 'a \<Rightarrow> nat \<Rightarrow> 'a debounced \<Rightarrow> 'a debounced" where
  "executedFunction wait args now s =
     (let s1 = clearTimeout (timeout s) s;
          (h, s2) = setTimeout args wait now s1
      in s2\<lparr>timeout := Some h\<rparr>)"

text \<open>
  The event loop.  A timer that is due and still pending when its turn comes is taken off
  the pending list and its callback runs, at its due time; a timer cancelled by an earlier
  callback of the same sweep does not run.  \<open>runTimers cb t\<close> fires the timers due by time
  \<open>t\<close>, in the order they were set (all timers of one debounced function have the same
  delay, so this is the order of their due times).
\<close>

definition fireTimer ::
  "('a \<Rightarrow> nat \<Rightarrow> 'a debounced \<Rightarrow> 'a debounced) \<Rightarrow> nat \<times> nat \<times> 'a \<Rightarrow> 'a debounced \<Rightarrow> 'a debounced" where
  "fireTimer cb x s =
     (case x of (i, due, args) \<Rightarrow>
        if x \<in> set (pending s) then cb args due (s\<lparr>pending := removeAll x (pending s)\<rparr>)
        else s)"

definition runTimers ::
  "('a \<Rightarrow> nat \<Rightarrow> 'a debounced \<Rightarrow> 'a debounced) \<Rightarrow> nat \<Rightarrow> 'a debounced \<Rightarrow> 'a debounced" where
  "runTimers cb t s = foldl (\<lambda>s x. fireTimer cb x s) s (filter (\<lambda>(i, due, args). due \<le> t) (pending s))"

text \<open>
  A run: the debounced function is invoked with arguments \<open>a\<close> at the times \<open>t\<close> of the
  list, the timers due by then having fired first; at the end the clock runs on to
  \<open>until\<close>.
\<close>

fun invocations ::
  "('a \<Rightarrow> nat \<Rightarrow> 'a debounced \<Rightarrow> 'a debounced) \<Rightarrow> nat \<Rightarrow> (nat \<times> 'a) list \<Rightarrow> 'a debounced \<Rightarrow> 'a debounced" where
  "invocations cb wait [] s = s"
| "invocations cb wait ((t, a) # evs) s =
     invocations cb wait evs (executedFunction wait a t (runTimers cb t s))"

definition run_debounced ::
  "('a \<Rightarrow> nat \<Rightarrow> 'a debounced \<Rightarrow> 'a debounced) \<Rightarrow> nat \<Rightarrow> (nat \<times> 'a) list \<Rightarrow> nat \<Rightarrow> 'a debounced" where
  "run_debounced cb wait evs until = runTimers cb until (invocations cb wait evs debounce)"

text \<open>
  A burst: invocations at non-decreasing times, each before the timer set by the one
  before it is due.
\<close>

fun burst :: "nat \<Rightarrow> (nat \<times> 'a) list \<Rightarrow> bool" where
  "burst wait [] = True"
| "burst wait [e] = True"
| "burst wait ((t, a) # (t', a') # evs) = (t \<le> t' \<and> t' < t + wait \<and> burst wait ((t', a') # evs))"

text \<open>
  At most one timer is pending, and it is the one the closure variable \<open>timeout\<close> names.
\<close>

definition one_pending :: "'a debounced \<Rightarrow> bool" where
  "one_pending s \<longleftrightarrow>
     pending s = [] \<or> (\<exists>i due args. pending s = [(i, due, args)] \<and> timeout s = Some i)"


section \<open>Smooth scroll navigation\<close>

text \<open>
  A node of the document as this module meets it: its id, its classes, and whether it
  can take the focus (\<open>focus()\<close> on an element that is not focusable does nothing).  The
  document is the list of its nodes in tree order; an element is named by its position
  in it.
\<close>

type_synonym element = nat

record node =
  eid :: jsstring
  eclasses :: "jsstring list"
  focusable :: bool


















section \<open>Mobile menu toggle\<close>

text \<open>
  A toggle button made by \<open>createMobileMenuButton\<close>: its \<open>aria-expanded\<close> attribute and
  whether it is in the document.  A button taken out of the document still exists: the
  listeners registered on the document keep it.
\<close>

record toggle =
  aria_expanded :: jsstring
  attached :: bool

text \<open>
  The \<open>nav ul\<close> element: its id, its \<open>aria-hidden\<close> attribute, whether it has the class
  \<open>mobile-menu-open\<close>, and \<open>style.display\<close>.  (The other style properties written when
  the menu opens are never read or reset by the script.)
\<close>

record nav =
  nav_id :: jsstring
  aria_hidden :: "jsstring option"
  mobile_menu_open :: bool
  display :: jsstring

text \<open>
  The state of the module: whether the document has a \<open>.nav-container\<close>, every toggle
  made so far (a toggle is named by its position in this list), the menu, the click and
  keydown listeners registered on the document in registration order (each names the
  toggle of its closure), the focused toggle if any, \<open>window.innerWidth\<close>, and whether
  the resize listener is registered.
\<close>

record menu =
  navContainer :: bool
  toggles :: "toggle list"
  nav :: nav
  clickListeners :: "nat list"
  keydownListeners :: "nat list"
  focusedToggle :: "nat option"
  innerWidth :: nat
  resizeListener :: bool

text \<open>\<open>document.querySelector('.mobile-menu-toggle')\<close>: the first toggle in the document.\<close>

definition existingButton :: "menu \<Rightarrow> nat option" where
  "existingButton s = List.find (\<lambda>b. attached (toggles s ! b)) [0 ..< length (toggles s)]"

text \<open>The click listener of the toggle \<open>b\<close>: lines 181 to 201.\<close>

definition toggleClick :: "nat \<Rightarrow> menu \<Rightarrow> menu" where
  "toggleClick b s =
     (let isExpanded = (aria_expanded (toggles s ! b) = js ''true'')
      in s\<lparr>toggles := (toggles s)[b := (toggles s ! b)\<lparr>aria_expanded := js_bool (\<not> isExpanded)\<rparr>],
           nav := (nav s)\<lparr>aria_hidden := Some (js_bool isExpanded),
                          mobile_menu_open := \<not> mobile_menu_open (nav s),
                          display := (if isExpanded then js ''none'' else js ''flex'')\<rparr>\<rparr>)"

text \<open>
  \<open>createMobileMenuButton\<close>, lines 140 to 219: without a \<open>.nav-container\<close> nothing
  happens; otherwise a collapsed toggle is made, the menu is hidden, one click listener
  and one keydown listener are registered on the document, and the toggle is appended to
  the container.
\<close>

definition createMobileMenuButton :: "menu \<Rightarrow> menu" where
  "createMobileMenuButton s =
     (if \<not> navContainer s then s
      else let b = length (toggles s)
           in s\<lparr>toggles := toggles s @ [\<lparr>aria_expanded = js ''false'', attached = True\<rparr>],
                nav := (nav s)\<lparr>nav_id := js ''main-navigation'',
                               aria_hidden := Some (js ''true''),
                               display := js ''none''\<rparr>,
                clickListeners := clickListeners s @ [b],
                keydownListeners := keydownListeners s @ [b]\<rparr>)"

text \<open>
  The listeners on the document, lines 204 to 216, for the toggle \<open>b\<close> of their closure.
  \<open>button.click()\<close> runs the toggle's click listener, also when the toggle is no longer in
  the document; \<open>button.focus()\<close> moves the focus only to a toggle in the document.  (The
  click event of an attached toggle bubbles to the document with a target inside the
  container, where the guard of every document click listener is false.)
\<close>

definition documentClick :: "bool \<Rightarrow> nat \<Rightarrow> menu \<Rightarrow> menu" where
  "documentClick targetInContainer b s =
     (if \<not> targetInContainer \<and> mobile_menu_open (nav s) then toggleClick b s else s)"

definition documentKeydown :: "jsstring \<Rightarrow> nat \<Rightarrow> menu \<Rightarrow> menu" where
  "documentKeydown key b s =
     (if key = js ''Escape'' \<and> mobile_menu_open (nav s)
      then (let s1 = toggleClick b s
            in if attached (toggles s1 ! b) then s1\<lparr>focusedToggle := Some b\<rparr> else s1)
      else s)"

text \<open>The resize handler, lines 124 to 132, run with the current \<open>window.innerWidth\<close>.\<close>

definition onResize :: "menu \<Rightarrow> menu" where
  "onResize s =
     (case existingButton s of
        None \<Rightarrow> if innerWidth s < 768 then createMobileMenuButton s else s
      | Some b \<Rightarrow>
          if innerWidth s \<ge> 768
          then s\<lparr>toggles := (toggles s)[b := (toggles s ! b)\<lparr>attached := False\<rparr>],
                 nav := (nav s)\<lparr>mobile_menu_open := False, aria_hidden := None\<rparr>\<rparr>
          else s)"

text \<open>
  \<open>initMobileMenu\<close>, lines 112 to 134, on a page with or without a \<open>nav ul\<close> and a
  \<open>.nav-container\<close>, loaded at the given width.
\<close>

definition initMobileMenu :: "bool \<Rightarrow> bool \<Rightarrow> nat \<Rightarrow> menu" where
  "initMobileMenu hasNav hasContainer width =
     (let s0 = \<lparr>navContainer = hasContainer, toggles = [],
                nav = \<lparr>nav_id = [], aria_hidden = None, mobile_menu_open = False, display = []\<rparr>,
                clickListeners = [], keydownListeners = [], focusedToggle = None,
                innerWidth = width, resizeListener = False\<rparr>
      in if \<not> hasNav then s0
         else (if width < 768 then createMobileMenuButton s0 else s0)\<lparr>resizeListener := True\<rparr>)"

text \<open>
  The events of the module.  \<open>Resize w\<close>: the window has width \<open>w\<close> when the debounced
  resize handler runs.  \<open>ToggleClick\<close>: a click of the user on the toggle in the document
  (the event then reaches the document with a target inside the container).
  \<open>OutsideClick\<close>: a click with a target outside the container.  \<open>Escape\<close>: a keydown
  of the Escape key.  The listeners of the document run in registration order.
\<close>

datatype menu_event = Resize nat | ToggleClick | OutsideClick | Escape

fun menu_step :: "menu \<Rightarrow> menu_event \<Rightarrow> menu" where
  "menu_step s (Resize w) =
     (let s1 = s\<lparr>innerWidth := w\<rparr> in if resizeListener s then onResize s1 else s1)"
| "menu_step s ToggleClick =
     (case existingButton s of
        None \<Rightarrow> s
      | Some b \<Rightarrow> foldl (\<lambda>s l. documentClick True l s) (toggleClick b s) (clickListeners s))"
| "menu_step s OutsideClick = foldl (\<lambda>s l. documentClick False l s) s (clickListeners s)"
| "menu_step s Escape = foldl (\<lambda>s l. documentKeydown (js ''Escape'') l s) s (keydownListeners s)"

definition menu_run :: "menu \<Rightarrow> menu_event list \<Rightarrow> menu" where
  "menu_run s evs = foldl menu_step s evs"

text \<open>
  The invariant of the specification: the toggles in the document, and the agreement of
  the toggle in the document with the menu (expanded exactly when the menu is displayed
  and not flagged hidden).
\<close>

definition togglesInDocument :: "menu \<Rightarrow> nat list" where
  "togglesInDocument s = filter (\<lambda>b. attached (toggles s ! b)) [0 ..< length (toggles s)]"

definition menuVisible :: "menu \<Rightarrow> bool" where
  "menuVisible s \<longleftrightarrow> display (nav s) \<noteq> js ''none'' \<and> aria_hidden (nav s) \<noteq> Some (js ''true'')"

definition toggleExpanded :: "menu \<Rightarrow> nat \<Rightarrow> bool" where
  "toggleExpanded s b \<longleftrightarrow> aria_expanded (toggles s ! b) = js ''true''"

definition menu_consistent :: "menu \<Rightarrow> bool" where
  "menu_consistent s \<longleftrightarrow>
     length (togglesInDocument s) \<le> 1 \<and>
     list_all (\<lambda>b. menuVisible s = toggleExpanded s b) (togglesInDocument s)"

text \<open>
  The toggle \<open>b\<close> is in the document; no toggle is; exactly one is (on a page with a
  container and the resize listener registered).
\<close>

definition inDocument :: "menu \<Rightarrow> nat \<Rightarrow> bool" where
  "inDocument s b \<longleftrightarrow> b < length (toggles s) \<and> attached (toggles s ! b)"

definition noToggle :: "menu \<Rightarrow> bool" where
  "noToggle s \<longleftrightarrow> navContainer s \<and> resizeListener s \<and> (\<forall>b. \<not> inDocument s b)"

definition oneToggle :: "menu \<Rightarrow> bool" where
  "oneToggle s \<longleftrightarrow>
     navContainer s \<and> resizeListener s \<and> (\<exists>b. \<forall>c. inDocument s c \<longleftrightarrow> c = b)"

definition atMostOne :: "menu \<Rightarrow> bool" where
  "atMostOne s \<longleftrightarrow> (\<forall>b c. inDocument s b \<and> inDocument s c \<longrightarrow> b = c)"

text \<open>One click listener and one keydown listener for each toggle ever made.\<close>

definition pairs_match :: "menu \<Rightarrow> bool" where
  "pairs_match s \<longleftrightarrow>
     length (clickListeners s) = length (toggles s) \<and>
     length (keydownListeners s) = length (toggles s)"

text \<open>
  The crossings below 768 pixels in a sequence of events that starts at width \<open>w\<close>: the
  resizes that find the window at 768 pixels or more and leave it narrower.
\<close>

fun crossings :: "nat \<Rightarrow> menu_event list \<Rightarrow> nat" where
  "crossings w [] = 0"
| "crossings w (Resize w' # evs) = (if 768 \<le> w \<and> w' < 768 then 1 else 0) + crossings w' evs"
| "crossings w (e # evs) = crossings w evs"

text \<open>
  On a page with both elements a toggle is in the document exactly while the window is
  narrower than 768 pixels; a page that lacks one of them never gets a toggle or a
  listener.
\<close>

definition tracked :: "menu \<Rightarrow> bool" where
  "tracked s \<longleftrightarrow> (if innerWidth s < 768 then oneToggle s else noToggle s)"

definition inert :: "menu \<Rightarrow> bool" where
  "inert s \<longleftrightarrow>
     clickListeners s = [] \<and> keydownListeners s = [] \<and> toggles s = [] \<and>
     (resizeListener s \<longrightarrow> \<not> navContainer s)"


section \<open>Form submission\<close>

text \<open>
  The submit button, the feedback message of class \<open>form-message\<close> (each message element
  has an identity, since its removal timer removes that element only), what the script
  can have thrown, and the lines written to the console.
\<close>

record button =
  aria_busy :: "jsstring option"
  disabled :: bool
  textContent :: jsstring

record form_message =
  message_id :: nat
  message_text :: jsstring
  message_type :: jsstring

text \<open>
  A \<open>TypeError\<close> (calling a property that is not a function, passing something that is
  not a node), the \<open>NotFoundError\<close> of \<open>insertBefore\<close>, or the reason of a rejected
  promise.
\<close>

datatype thrown = TypeError | NotFoundError | Reason jsstring

datatype console_line =
  Submitted "jsstring \<rightharpoonup> jsstring"
| SubmissionError thrown


text \<open>
  The form.  \<open>formFields\<close> are the \<open>input\<close> and \<open>textarea\<close> elements that
  \<open>initFormValidation\<close> collected, all of them controls of this form, \<open>buttonElement\<close> is
  the first \<^verbatim>\<open>button[type="submit"]\<close> in the form, \<open>otherNames\<close> are the ids and
  names of the form's other listed elements (buttons, selects, fieldsets, outputs,
  objects, images).
  A form element answers a property name that is the id or name of one of its controls
  with that control, also where the name is one of its own methods; \<open>firstChildShadow\<close>
  says, for a form with a control called \<open>firstChild\<close>, what \<open>insertBefore\<close> does with
  the reference node it then gets: nothing wrong if that is one control and a child of
  the form, a \<open>NotFoundError\<close> if it is a control deeper in the form, a \<open>TypeError\<close> if
  several controls share the name.  \<open>entryList\<close> is the browser's construction of the
  entry list of \<open>new FormData(form)\<close> from the fields as they stand.  \<open>uncaught\<close> collects
  what left a listener of the script uncaught.
\<close>

record form =
  formFields :: "field list"
  errorElements :: error_elements
  buttonElement :: "button option"
  otherNames :: "jsstring list"
  firstChildShadow :: "thrown option"
  entryList :: "field list \<Rightarrow> (jsstring \<times> jsstring) list"
  formMessage :: "form_message option"
  nextMessage :: nat
  removalTimers :: "nat list"
  focusedField :: "nat option"
  console :: "console_line list"
  uncaught :: "thrown list"

definition controlNames :: "form \<Rightarrow> jsstring list" where
  "controlNames fm =
     concat (map (\<lambda>f. if ftype f = js ''image'' then [] else [fid f, fname f]) (formFields fm)) @
     otherNames fm"

definition shadowed :: "form \<Rightarrow> jsstring \<Rightarrow> bool" where
  "shadowed fm property \<longleftrightarrow> property \<noteq> [] \<and> property \<in> set (controlNames fm)"

text \<open>
  Line 321: the button that \<^verbatim>\<open>form.querySelector('button[type="submit"]')\<close> returns,
  if the call returns one.  When a control shadows \<open>querySelector\<close> the call throws.
\<close>

definition submitButton :: "form \<Rightarrow> button option" where
  "submitButton fm = (if shadowed fm (js ''querySelector'') then None else buttonElement fm)"

subsection \<open>The simulated request\<close>








text \<open>
  How an awaited promise lets the function go on: it resolves, or it rejects with a
  reason; \<open>await\<close> on a promise that stays pending never returns.
\<close>

datatype outcome = Resolved | Rejected jsstring



subsection \<open>Feedback and reset\<close>

text \<open>
  \<open>showFormMessage\<close>, lines 371 to 400: the message in place is removed, a new one is put
  before \<open>form.firstChild\<close>, and a timer is set that removes this new element 5 seconds
  later.  The function throws where the form's \<open>querySelector\<close> or \<open>insertBefore\<close> is
  shadowed by a control, or where \<open>insertBefore\<close> refuses the reference node; the result
  is what was thrown, if anything, with the form as it then is.
\<close>

definition showFormMessage :: "jsstring \<Rightarrow> jsstring \<Rightarrow> form \<Rightarrow> thrown option \<times> form" where
  "showFormMessage message type fm =
     (if shadowed fm (js ''querySelector'') then (Some TypeError, fm)
      else let fm1 = fm\<lparr>formMessage := None\<rparr>
           in if shadowed fm (js ''insertBefore'') then (Some TypeError, fm1)
              else case (if shadowed fm (js ''firstChild'') then firstChildShadow fm else None) of
                     Some e \<Rightarrow> (Some e, fm1)
                   | None \<Rightarrow>
                       (None,
                        fm1\<lparr>formMessage := Some \<lparr>message_id = nextMessage fm,
                                                   message_text = message,
                                                   message_type = type\<rparr>,
                            nextMessage := Suc (nextMessage fm),
                            removalTimers := removalTimers fm @ [nextMessage fm]\<rparr>))"

text \<open>The timer callback of lines 397 to 399, for the message element \<open>i\<close>.\<close>

definition removeMessage :: "nat \<Rightarrow> form \<Rightarrow> form" where
  "removeMessage i fm =
     (let fm1 = fm\<lparr>removalTimers := removeAll i (removalTimers fm)\<rparr>
      in case formMessage fm1 of
           None \<Rightarrow> fm1
         | Some m \<Rightarrow> if message_id m = i then fm1\<lparr>formMessage := None\<rparr> else fm1)"

text \<open>\<open>form.reset()\<close>: every field takes its default value again.\<close>

definition reset :: "form \<Rightarrow> form" where
  "reset fm = fm\<lparr>formFields := map (\<lambda>f. f\<lparr>fvalue := defaultValue f\<rparr>) (formFields fm)\<rparr>"

text \<open>Lines 347 to 349: every field that has the attribute gets \<open>aria-invalid="false"\<close>.\<close>

definition clearValidationStates :: "form \<Rightarrow> form" where
  "clearValidationStates fm =
     fm\<lparr>formFields := map (\<lambda>f. case aria_invalid f of None \<Rightarrow> f
                               | Some _ \<Rightarrow> f\<lparr>aria_invalid := Some (js ''false'')\<rparr>) (formFields fm)\<rparr>"

text \<open>
  Lines 334 and 335: \<open>Object.fromEntries\<close> makes an object of the entry list; where a
  name comes twice, the later entry overwrites the earlier.
\<close>

definition fromEntries :: "(jsstring \<times> jsstring) list \<Rightarrow> (jsstring \<rightharpoonup> jsstring)" where
  "fromEntries es = map_of (rev es)"

definition formData :: "form \<Rightarrow> (jsstring \<rightharpoonup> jsstring)" where
  "formData fm = fromEntries (entryList fm (formFields fm))"

subsection \<open>handleFormSubmission\<close>

definition setButton :: "(button \<Rightarrow> button) \<Rightarrow> form \<Rightarrow> form" where
  "setButton f fm = fm\<lparr>buttonElement := map_option f (buttonElement fm)\<rparr>"

text \<open>
  The \<open>try\<close> block from the \<open>await\<close> on, lines 338 to 351.  A rejected promise throws its
  reason; after a resolved one the success message is shown, the form is reset and the
  validation states are cleared, each step throwing a \<open>TypeError\<close> where a control
  shadows the method it calls.
\<close>

definition afterAwait ::
  "outcome \<Rightarrow> (jsstring \<rightharpoonup> jsstring) \<Rightarrow> form \<Rightarrow> thrown option \<times> form" where
  "afterAwait result data fm =
     (case result of
        Rejected reason \<Rightarrow> (Some (Reason reason), fm)
      | Resolved \<Rightarrow>
          (case showFormMessage (js ''Thank you! Your message has been sent successfully.'')
                  (js ''success'') fm of
             (Some e, a) \<Rightarrow> (Some e, a)
           | (None, a) \<Rightarrow>
               if shadowed a (js ''reset'') then (Some TypeError, a)
               else let b = reset a
                    in if shadowed b (js ''querySelectorAll'') then (Some TypeError, b)
                       else let c = clearValidationStates b
                            in (None, c\<lparr>console := console c @ [Submitted data]\<rparr>)))"

text \<open>The \<open>catch\<close> block, lines 353 to 356; what it throws itself is not caught.\<close>

definition catchBlock :: "thrown \<Rightarrow> form \<Rightarrow> thrown option \<times> form" where
  "catchBlock error fm =
     (case showFormMessage
             (js ''Sorry, there was an error sending your message. Please try again.'')
             (js ''error'') fm of
        (Some e, a) \<Rightarrow> (Some e, a)
      | (None, a) \<Rightarrow> (None, a\<lparr>console := console a @ [SubmissionError error]\<rparr>))"

text \<open>The \<open>finally\<close> block, lines 357 to 362.\<close>

definition finallyBlock :: "jsstring \<Rightarrow> form \<Rightarrow> form" where
  "finallyBlock originalText fm =
     setButton (\<lambda>b. b\<lparr>aria_busy := Some (js ''false''), disabled := False,
                       textContent := originalText\<rparr>) fm"

text \<open>
  Lines 325 to 362, for the button found and the outcome of the awaited promise: the
  \<open>try\<close> block up to the \<open>await\<close>, the rest of it, the \<open>catch\<close> block if something was
  thrown, and the \<open>finally\<close> block in every case.
\<close>

definition submitWith :: "button \<Rightarrow> outcome \<Rightarrow> form \<Rightarrow> form" where
  "submitWith submitButton0 result fm =
     (let originalText = textContent submitButton0;
          fm1 = setButton (\<lambda>b. b\<lparr>aria_busy := Some (js ''true''), disabled := True,
                                  textContent := js ''Sending...''\<rparr>) fm;
          data = formData fm1;
          (thrownInTry, fm2) = afterAwait result data fm1;
          (escaped, fm3) = (case thrownInTry of
                              None \<Rightarrow> (None, fm2)
                            | Some error \<Rightarrow> catchBlock error fm2);
          fm4 = finallyBlock originalText fm3
      in case escaped of None \<Rightarrow> fm4 | Some e \<Rightarrow> fm4\<lparr>uncaught := uncaught fm4 @ [e]\<rparr>)"

text \<open>
  Lines 321 to 323 when no button comes back: the function returns, or the lookup itself
  has thrown.
\<close>

definition withoutButton :: "form \<Rightarrow> form" where
  "withoutButton fm =
     (if shadowed fm (js ''querySelector'') then fm\<lparr>uncaught := uncaught fm @ [TypeError]\<rparr>
      else fm)"

text \<open>
  \<open>handleFormSubmission\<close>, lines 320 to 363, with the outcome of the awaited promise as a
  parameter, and with the promise of the source; the latter returns no form if the
  promise never settles.
\<close>

definition handleFormSubmissionWith :: "outcome \<Rightarrow> form \<Rightarrow> form" where
  "handleFormSubmissionWith result fm =
     (case submitButton fm of
        None \<Rightarrow> withoutButton fm
      | Some submitButton0 \<Rightarrow> submitWith submitButton0 result fm)"


text \<open>
  The submit listener, lines 291 to 313: every field is validated in turn; if one is
  invalid the first field with \<open>aria-invalid="true"\<close> gets the focus and nothing is
  submitted; otherwise the form is handed to \<open>handleFormSubmission\<close>.
\<close>

fun validateFields :: "field list \<Rightarrow> error_elements \<Rightarrow> bool \<times> field list \<times> error_elements" where
  "validateFields [] doc = (True, [], doc)"
| "validateFields (f # fs) doc =
     (case validateField f doc of (ok, f', doc') \<Rightarrow>
        (case validateFields fs doc' of (oks, fs', doc'') \<Rightarrow> (ok \<and> oks, f' # fs', doc'')))"

definition firstInvalid :: "field list \<Rightarrow> nat option" where
  "firstInvalid fs = List.find (\<lambda>i. aria_invalid (fs ! i) = Some (js ''true'')) [0 ..< length fs]"

definition focusFirstInvalid :: "form \<Rightarrow> form" where
  "focusFirstInvalid fm =
     (if shadowed fm (js ''querySelector'') then fm\<lparr>uncaught := uncaught fm @ [TypeError]\<rparr>
      else case firstInvalid (formFields fm) of
             None \<Rightarrow> fm
           | Some i \<Rightarrow> fm\<lparr>focusedField := Some i\<rparr>)"

definition onSubmitWith :: "outcome \<Rightarrow> form \<Rightarrow> form" where
  "onSubmitWith result fm =
     (case validateFields (formFields fm) (errorElements fm) of (isFormValid, fs, doc) \<Rightarrow>
        (let fm1 = fm\<lparr>formFields := fs, errorElements := doc\<rparr>
         in if \<not> isFormValid then focusFirstInvalid fm1
            else handleFormSubmissionWith result fm1))"


text \<open>A fully valid form: no field fails a rule of \<open>validateField\<close>.\<close>

definition fullyValid :: "form \<Rightarrow> bool" where
  "fullyValid fm \<longleftrightarrow> list_all (\<lambda>f. snd (checkField f)) (formFields fm)"

section \<open>Scroll-triggered animations\<close>

text \<open>
  The elements the observer watches, the elements with the classes \<open>reveal\<close> and
  \<open>reveal-visible\<close>, whether the style sheet of \<open>addRevealStyles\<close> is in the document, and
  a record of every execution of line 424 (\<open>classList.add('reveal-visible')\<close>) with its
  target.
\<close>

record reveal =
  observed :: "element list"
  revealClass :: "element set"
  revealVisible :: "element set"
  revealStyles :: bool
  revealed :: "element list"

text \<open>
  The observer callback, lines 421 to 428, on the entries handed to it: the target of
  each and its \<open>isIntersecting\<close>.
\<close>

definition onEntry :: "reveal \<Rightarrow> element \<times> bool \<Rightarrow> reveal" where
  "onEntry s e =
     (case e of (target, isIntersecting) \<Rightarrow>
        if isIntersecting
        then s\<lparr>revealVisible := insert target (revealVisible s),
               revealed := revealed s @ [target],
               observed := removeAll target (observed s)\<rparr>
        else s)"

definition observerCallback :: "(element \<times> bool) list \<Rightarrow> reveal \<Rightarrow> reveal" where
  "observerCallback entries s = foldl onEntry s entries"

text \<open>\<open>observer.observe(element)\<close>: watching an element already watched changes nothing.\<close>

definition observe :: "element \<Rightarrow> reveal \<Rightarrow> reveal" where
  "observe x s = (if x \<in> set (observed s) then s else s\<lparr>observed := observed s @ [x]\<rparr>)"

text \<open>
  \<open>initScrollAnimations\<close>, lines 409 to 440: \<open>supported\<close> is the test for
  \<open>IntersectionObserver\<close>, \<open>animatedElements\<close> the result of \<open>querySelectorAll\<close>.
\<close>

definition initScrollAnimations :: "bool \<Rightarrow> element list \<Rightarrow> reveal" where
  "initScrollAnimations supported animatedElements =
     (let s0 = \<lparr>observed = [], revealClass = {}, revealVisible = {}, revealStyles = False,
                revealed = []\<rparr>
      in if \<not> supported then s0
         else (foldl (\<lambda>s x. observe x (s\<lparr>revealClass := insert x (revealClass s)\<rparr>)) s0
                 animatedElements)\<lparr>revealStyles := True\<rparr>)"

text \<open>
  The browser's side of the observer: when it notifies, the callback receives entries for
  watched targets only, one for each here, saying whether the target intersects the
  viewport (\<open>visible\<close> lists the elements that do).
\<close>

definition notify :: "reveal \<Rightarrow> element list \<Rightarrow> reveal" where
  "notify s visible = observerCallback (map (\<lambda>x. (x, x \<in> set visible)) (observed s)) s"

definition scroll_run :: "reveal \<Rightarrow> element list list \<Rightarrow> reveal" where
  "scroll_run s views = foldl notify s views"


section \<open>Example pages\<close>







text \<open>
  A contact form with a name field and a message field, both filled in validly, without
  and with a \<^verbatim>\<open>button[type="submit"]\<close>; each of its fields contributes its name and
  value to the entry list.
\<close>

definition filled_fields :: "field list" where
  "filled_fields =
     [\<lparr>fid = js ''name'', fname = js ''name'', ftype = js ''text'', fvalue = js ''Ada'',
       defaultValue = [], required = True, aria_invalid = Some (js ''true'')\<rparr>,
      \<lparr>fid = js ''message'', fname = js ''message'', ftype = js ''textarea'',
       fvalue = js ''Hello there!'', defaultValue = [], required = True, aria_invalid = None\<rparr>]"

definition text_entries :: "field list \<Rightarrow> (jsstring \<times> jsstring) list" where
  "text_entries fs = map (\<lambda>f. (fname f, fvalue f)) (filter (\<lambda>f. fname f \<noteq> []) fs)"

definition form_without_button :: form where
  "form_without_button =
     \<lparr>formFields = filled_fields, errorElements = Map.empty, buttonElement = None,
      otherNames = [], firstChildShadow = None, entryList = text_entries,
      formMessage = None, nextMessage = 0, removalTimers = [], focusedField = None,
      console = [], uncaught = []\<rparr>"

definition form_with_button :: form where
  "form_with_button =
     form_without_button
       \<lparr>buttonElement := Some \<lparr>aria_busy = None, disabled = False, textContent = js ''Send''\<rparr>\<rparr>"




text \<open>
  On a page loaded 600 pixels wide: the menu is opened, the window grows to 1024 pixels
  and shrinks to 600 again, the menu is opened with the new toggle, and the user clicks
  outside the navigation.
\<close>

definition stale_toggle_events :: "menu_event list" where
  "stale_toggle_events = [ToggleClick, Resize 1024, Resize 600, ToggleClick, OutsideClick]"

text \<open>
  A field with id \<open>message\<close> that is an e-mail input, holding \<open>v\<close>, and a document whose
  only error element is the one of this field, with text \<open>m\<close>.
\<close>

definition email_typed_message :: "jsstring \<Rightarrow> field" where
  "email_typed_message v =
     \<lparr>fid = js ''message'', fname = js ''message'', ftype = js ''email'', fvalue = v,
      defaultValue = [], required = True, aria_invalid = None\<rparr>"

definition message_error_element :: "jsstring \<Rightarrow> error_elements" where
  "message_error_element m = [js ''message-error'' \<mapsto> m]"


section \<open>Properties of the utility functions and of form validation\<close>

subsection \<open>What the e-mail pattern accepts\<close>

lemma rmatch_One:
  "rmatch (One a # ts) s \<longleftrightarrow> (\<exists>c v. s = c # v \<and> atom_matches a c \<and> rmatch ts v)"
  by (cases s) auto

lemma rmatch_OneOrMore:
  "rmatch (OneOrMore a # ts) s \<longleftrightarrow>
     (\<exists>u v. s = u @ v \<and> u \<noteq> [] \<and> (\<forall>c\<in>set u. atom_matches a c) \<and> rmatch ts v)"
proof (induction s)
  case Nil
  show ?case by simp
next
  case (Cons c cs)
  show ?case
  proof
    assume "rmatch (OneOrMore a # ts) (c # cs)"
    then have c: "atom_matches a c" and d: "rmatch (OneOrMore a # ts) cs \<or> rmatch ts cs"
      by simp_all
    from d show "\<exists>u v. c # cs = u @ v \<and> u \<noteq> [] \<and> (\<forall>c\<in>set u. atom_matches a c) \<and> rmatch ts v"
    proof
      assume "rmatch (OneOrMore a # ts) cs"
      with Cons.IH obtain u v where "cs = u @ v" "\<forall>c\<in>set u. atom_matches a c" "rmatch ts v"
        by blast
      with c have "c # cs = (c # u) @ v \<and> c # u \<noteq> [] \<and>
          (\<forall>x\<in>set (c # u). atom_matches a x) \<and> rmatch ts v"
        by simp
      then show ?thesis by blast
    next
      assume "rmatch ts cs"
      with c have "c # cs = [c] @ cs \<and> [c] \<noteq> [] \<and>
          (\<forall>x\<in>set [c]. atom_matches a x) \<and> rmatch ts cs"
        by simp
      then show ?thesis by blast
    qed
  next
    assume "\<exists>u v. c # cs = u @ v \<and> u \<noteq> [] \<and> (\<forall>c\<in>set u. atom_matches a c) \<and> rmatch ts v"
    then obtain u v where uv: "c # cs = u @ v" "u \<noteq> []" "\<forall>c\<in>set u. atom_matches a c"
        "rmatch ts v"
      by blast
    then obtain u' where u: "u = c # u'" "cs = u' @ v"
      by (cases u) auto
    show "rmatch (OneOrMore a # ts) (c # cs)"
    proof (cases "u' = []")
      case True
      with u uv show ?thesis by simp
    next
      case False
      with u uv have "rmatch (OneOrMore a # ts) cs"
        using Cons.IH by auto
      with u uv show ?thesis by simp
    qed
  qed
qed

lemma atom_plain:
  "atom_matches (NotIn [WhiteSpace, Single AT]) c \<longleftrightarrow> \<not> is_space c \<and> c \<noteq> AT"
  by simp

lemma isValidEmail_split:
  "isValidEmail s \<longleftrightarrow>
     (\<exists>l a b. s = l @ AT # a @ DOT # b \<and> l \<noteq> [] \<and> a \<noteq> [] \<and> b \<noteq> [] \<and>
        plain l \<and> plain a \<and> plain b)"
  unfolding isValidEmail_def regex_test_def emailRegex_def plain_def
  apply (simp only: rmatch_OneOrMore rmatch_One atom_plain rmatch.simps(1) atom_matches.simps(1))
  apply (rule iffI)
   apply (elim exE conjE)
   apply simp
   apply blast
  apply (elim exE conjE)
  apply simp
  apply blast
  done

lemma not_space_AT_DOT: "\<not> is_space AT" "\<not> is_space DOT"
  by (simp_all add: is_space_def)

lemma plain_count: "plain u \<Longrightarrow> count_list u AT = 0"
  by (induction u) (auto simp: plain_def)

lemma count_zero_plain: "\<not> list_ex is_space u \<Longrightarrow> count_list u AT = 0 \<Longrightarrow> plain u"
  by (induction u) (auto simp: plain_def split: if_splits)

lemma split_shape:
  assumes "s = l @ AT # a @ DOT # b" "l \<noteq> []" "a \<noteq> []" "b \<noteq> []" "plain l" "plain a" "plain b"
  shows "email_shape s"
proof -
  have nl: "\<forall>c\<in>set l. c \<noteq> AT" using assms(5) by (simp add: plain_def)
  have lp: "local_part s = l"
    unfolding local_part_def assms(1) using nl by simp
  have dp: "domain_part s = a @ DOT # b"
    unfolding domain_part_def assms(1) using nl by simp
  have sp: "\<not> list_ex is_space s"
    using assms(5-7) not_space_AT_DOT by (auto simp: assms(1) plain_def list_ex_iff)
  have cnt: "count_list s AT = 1"
    using assms(5-7) by (simp add: assms(1) plain_count)
  obtain x a' where a: "a = x # a'" using assms(3) by (cases a) auto
  obtain b' y where b: "b = b' @ [y]" using assms(4) by (cases b rule: rev_cases) auto
  have "butlast (tl (domain_part s)) = a' @ DOT # b'"
    by (simp add: dp a b butlast_append)
  then have "DOT \<in> set (butlast (tl (domain_part s)))" by simp
  with lp sp cnt assms(2) show ?thesis by (simp add: email_shape_def)
qed

lemma shape_split:
  assumes "email_shape s"
  shows "\<exists>l a b. s = l @ AT # a @ DOT # b \<and> l \<noteq> [] \<and> a \<noteq> [] \<and> b \<noteq> [] \<and>
           plain l \<and> plain a \<and> plain b"
proof -
  define l where "l = local_part s"
  define r where "r = dropWhile (\<lambda>c. c \<noteq> AT) s"
  define d where "d = domain_part s"
  from assms have sp: "\<not> list_ex is_space s" and cnt: "count_list s AT = 1"
    and l: "l \<noteq> []" and dot: "DOT \<in> set (butlast (tl d))"
    by (simp_all add: email_shape_def l_def d_def)
  have s: "s = l @ r" by (simp add: l_def r_def local_part_def)
  have nl: "\<forall>c\<in>set l. c \<noteq> AT"
    unfolding l_def local_part_def by (auto dest: set_takeWhileD)
  then have cl: "count_list l AT = 0" by (induction l) auto
  from dot have "d \<noteq> []" by auto
  have dr: "d = drop 1 r" by (simp add: d_def domain_part_def r_def)
  with \<open>d \<noteq> []\<close> have "r \<noteq> []" by auto
  then have "hd r = AT" unfolding r_def using hd_dropWhile[of "\<lambda>c. c \<noteq> AT" s] by auto
  with \<open>r \<noteq> []\<close> have r: "r = AT # d"
    using dr by (cases r) auto
  have cd: "count_list d AT = 0" using cnt cl by (simp add: s r)
  have spl: "\<not> list_ex is_space l" and spd: "\<not> list_ex is_space d"
    using sp by (auto simp: s r list_ex_iff)
  have pl: "plain l" using spl cl by (rule count_zero_plain)
  have pd: "plain d" using spd cd by (rule count_zero_plain)
  from dot obtain m1 m2 where m: "butlast (tl d) = m1 @ DOT # m2"
    by (auto simp: in_set_conv_decomp)
  then have tl_ne: "tl d \<noteq> []" by auto
  then obtain x where x: "d = x # tl d" by (cases d) auto
  have "tl d = butlast (tl d) @ [last (tl d)]" using tl_ne by simp
  with m x have dd: "d = (x # m1) @ DOT # (m2 @ [last (tl d)])" by simp
  have pa: "plain (x # m1)" and pb: "plain (m2 @ [last (tl d)])"
    using pd by (subst (asm) dd, simp add: plain_def)+
  have "s = l @ AT # (x # m1) @ DOT # (m2 @ [last (tl d)])"
    using s r dd by simp
  with l pl pa pb show ?thesis by blast
qed

lemma isValidEmail_shape: "isValidEmail s \<longleftrightarrow> email_shape s"
  using split_shape shape_split by (auto simp: isValidEmail_split)

lemma js_literals_distinct:
  "js ''true'' \<noteq> js ''false''" "js ''email'' \<noteq> js ''message''"
  by (simp_all add: js_def)

subsection \<open>The precedence of the validation rules\<close>

text \<open>
  Claim C2.  \<open>validateField\<close> applies its rules in this order, the first that matches
  deciding: a required field whose trimmed value is empty (so also a value of whitespace
  only) is invalid with "This field is required"; else an e-mail typed field whose
  trimmed value is non-empty and fails the pattern is invalid with "Please enter a valid
  email address"; else the message field whose trimmed value is non-empty and shorter
  than 10 is invalid with "Message must be at least 10 characters"; else the field is
  valid and the message is cleared.  In each case \<open>aria-invalid\<close> is set accordingly and
  the field's error element, if the document has one, receives the message.
\<close>

theorem validateField_precedence:
  "(rule_required f \<longrightarrow>
      validateField f doc =
        (False, f\<lparr>aria_invalid := Some (js ''true'')\<rparr>,
         setErrorText (fid f) (js ''This field is required'') doc)) \<and>
   (\<not> rule_required f \<and> rule_email f \<longrightarrow>
      validateField f doc =
        (False, f\<lparr>aria_invalid := Some (js ''true'')\<rparr>,
         setErrorText (fid f) (js ''Please enter a valid email address'') doc)) \<and>
   (\<not> rule_required f \<and> \<not> rule_email f \<and> rule_message f \<longrightarrow>
      validateField f doc =
        (False, f\<lparr>aria_invalid := Some (js ''true'')\<rparr>,
         setErrorText (fid f) (js ''Message must be at least 10 characters'') doc)) \<and>
   (\<not> rule_required f \<and> \<not> rule_email f \<and> \<not> rule_message f \<longrightarrow>
      validateField f doc =
        (True, f\<lparr>aria_invalid := Some (js ''false'')\<rparr>, setErrorText (fid f) [] doc))"
  by (auto simp: validateField_def checkField_def rule_required_def rule_email_def
      rule_message_def js_bool_def Let_def)

text \<open>
  The theorem at four fields, one for each rule: a required e-mail field holding only
  blanks, an e-mail field holding "not-an-email", a message field holding "too short"
  between blanks, and a message field holding "long enough".
\<close>

theorem validateField_precedence_witness:
  "validateField
     \<lparr>fid = js ''email'', fname = js ''email'', ftype = js ''email'', fvalue = js ''   '',
      defaultValue = [], required = True, aria_invalid = None\<rparr>
     [js ''email-error'' \<mapsto> []] =
     (False,
      \<lparr>fid = js ''email'', fname = js ''email'', ftype = js ''email'', fvalue = js ''   '',
       defaultValue = [], required = True, aria_invalid = Some (js ''true'')\<rparr>,
      [js ''email-error'' \<mapsto> js ''This field is required'']) \<and>
   validateField
     \<lparr>fid = js ''email'', fname = js ''email'', ftype = js ''email'',
      fvalue = js ''not-an-email'', defaultValue = [], required = True, aria_invalid = None\<rparr>
     [js ''email-error'' \<mapsto> []] =
     (False,
      \<lparr>fid = js ''email'', fname = js ''email'', ftype = js ''email'',
       fvalue = js ''not-an-email'', defaultValue = [], required = True,
       aria_invalid = Some (js ''true'')\<rparr>,
      [js ''email-error'' \<mapsto> js ''Please enter a valid email address'']) \<and>
   validateField
     \<lparr>fid = js ''message'', fname = js ''message'', ftype = js ''textarea'',
      fvalue = js ''  too short  '', defaultValue = [], required = True, aria_invalid = None\<rparr>
     [js ''message-error'' \<mapsto> []] =
     (False,
      \<lparr>fid = js ''message'', fname = js ''message'', ftype = js ''textarea'',
       fvalue = js ''  too short  '', defaultValue = [], required = True,
       aria_invalid = Some (js ''true'')\<rparr>,
      [js ''message-error'' \<mapsto> js ''Message must be at least 10 characters'']) \<and>
   validateField
     \<lparr>fid = js ''message'', fname = js ''message'', ftype = js ''textarea'',
      fvalue = js ''long enough'', defaultValue = [], required = True,
      aria_invalid = Some (js ''true'')\<rparr>
     [js ''message-error'' \<mapsto> js ''This field is required''] =
     (True,
      \<lparr>fid = js ''message'', fname = js ''message'', ftype = js ''textarea'',
       fvalue = js ''long enough'', defaultValue = [], required = True,
       aria_invalid = Some (js ''false'')\<rparr>,
      [js ''message-error'' \<mapsto> []])"
proof -
  have blanks: "trim (js ''   '') = []"
    and nae: "trim (js ''not-an-email'') = js ''not-an-email''"
    and short: "trim (js ''  too short  '') = js ''too short''"
    and long: "trim (js ''long enough'') = js ''long enough''"
    by (simp_all add: trim_def js_def is_space_def)
  have bad: "\<not> isValidEmail (js ''not-an-email'')"
    by (simp add: isValidEmail_def regex_test_def emailRegex_def js_def is_space_def)
  have lits: "js ''textarea'' \<noteq> js ''email''" "js ''not-an-email'' \<noteq> []"
    "js ''too short'' \<noteq> []" "js ''long enough'' \<noteq> []" "js ''email'' \<noteq> js ''message''"
    by (simp_all add: js_def)
  have lens: "length (js ''too short'') = 9" "length (js ''long enough'') = 11"
    by (simp_all add: js_def)
  have el: "js ''email'' @ js ''-error'' = js ''email-error''"
    "js ''message'' @ js ''-error'' = js ''message-error''"
    by (simp_all add: js_def)
  show ?thesis
    using validateField_precedence
      [of "\<lparr>fid = js ''email'', fname = js ''email'', ftype = js ''email'', fvalue = js ''   '',
            defaultValue = [], required = True, aria_invalid = None\<rparr>"
          "[js ''email-error'' \<mapsto> []]"]
      validateField_precedence
      [of "\<lparr>fid = js ''email'', fname = js ''email'', ftype = js ''email'',
            fvalue = js ''not-an-email'', defaultValue = [], required = True,
            aria_invalid = None\<rparr>"
          "[js ''email-error'' \<mapsto> []]"]
      validateField_precedence
      [of "\<lparr>fid = js ''message'', fname = js ''message'', ftype = js ''textarea'',
            fvalue = js ''  too short  '', defaultValue = [], required = True,
            aria_invalid = None\<rparr>"
          "[js ''message-error'' \<mapsto> []]"]
      validateField_precedence
      [of "\<lparr>fid = js ''message'', fname = js ''message'', ftype = js ''textarea'',
            fvalue = js ''long enough'', defaultValue = [], required = True,
            aria_invalid = Some (js ''true'')\<rparr>"
          "[js ''message-error'' \<mapsto> js ''This field is required'']"]
    by (simp add: rule_required_def rule_email_def rule_message_def setErrorText_def
        blanks nae short long bad lits lens el)
qed

subsection \<open>The e-mail predicate\<close>

text \<open>
  Claim C3, as stated, fails: "a@.co" has no whitespace, exactly one \<open>@\<close> with non-empty
  parts on both sides and a \<open>.\<close> after the \<open>@\<close>, and the pattern rejects it.
\<close>

theorem isValidEmail_claimed_shape_counterexample:
  "claimed_email_shape (js ''a@.co'') \<and> \<not> isValidEmail (js ''a@.co'')"
  by (simp add: isValidEmail_def regex_test_def emailRegex_def js_def is_space_def
      claimed_email_shape_def local_part_def domain_part_def)

text \<open>
  Claim C3, amended.  An e-mail typed field holding "not-an-email" is marked invalid with
  the e-mail format message, and the field \<open>email\<close> holding "a@b.co" is marked valid.  In
  general \<open>isValidEmail\<close> accepts exactly the strings with no whitespace, exactly one
  \<open>@\<close>, a non-empty part before it, and after it a part holding a \<open>.\<close> that is neither
  its first nor its last code unit.
\<close>

theorem isValidEmail_accepts:
  "(ftype f = js ''email'' \<and> fvalue f = js ''not-an-email'' \<longrightarrow>
      validateField f doc =
        (False, f\<lparr>aria_invalid := Some (js ''true'')\<rparr>,
         setErrorText (fid f) (js ''Please enter a valid email address'') doc)) \<and>
   (ftype f = js ''email'' \<and> fid f = js ''email'' \<and> fvalue f = js ''a@b.co'' \<longrightarrow>
      validateField f doc =
        (True, f\<lparr>aria_invalid := Some (js ''false'')\<rparr>, setErrorText (fid f) [] doc)) \<and>
   (isValidEmail s \<longleftrightarrow>
      \<not> list_ex is_space s \<and> count_list s AT = 1 \<and> local_part s \<noteq> [] \<and>
      DOT \<in> set (butlast (tl (domain_part s))))"
proof -
  have t1: "trim (js ''not-an-email'') = js ''not-an-email''"
    and t2: "trim (js ''a@b.co'') = js ''a@b.co''"
    by (simp_all add: trim_def js_def is_space_def)
  have bad: "\<not> isValidEmail (js ''not-an-email'')"
    and good: "isValidEmail (js ''a@b.co'')"
    by (simp_all add: isValidEmail_def regex_test_def emailRegex_def js_def is_space_def)
  have ne: "js ''not-an-email'' \<noteq> []" "js ''a@b.co'' \<noteq> []" "js ''email'' \<noteq> js ''message''"
    by (simp_all add: js_def)
  have a: "ftype f = js ''email'' \<and> fvalue f = js ''not-an-email'' \<longrightarrow>
      validateField f doc =
        (False, f\<lparr>aria_invalid := Some (js ''true'')\<rparr>,
         setErrorText (fid f) (js ''Please enter a valid email address'') doc)"
    by (simp add: validateField_def checkField_def js_bool_def t1 bad ne)
  have b: "ftype f = js ''email'' \<and> fid f = js ''email'' \<and> fvalue f = js ''a@b.co'' \<longrightarrow>
      validateField f doc =
        (True, f\<lparr>aria_invalid := Some (js ''false'')\<rparr>, setErrorText (fid f) [] doc)"
    by (simp add: validateField_def checkField_def js_bool_def t2 good ne)
  have c: "isValidEmail s \<longleftrightarrow>
      \<not> list_ex is_space s \<and> count_list s AT = 1 \<and> local_part s \<noteq> [] \<and>
      DOT \<in> set (butlast (tl (domain_part s)))"
    using isValidEmail_shape [of s] by (simp add: email_shape_def)
  from a b c show ?thesis by blast
qed

theorem isValidEmail_accepts_witness:
  "validateField
     \<lparr>fid = js ''email'', fname = js ''email'', ftype = js ''email'',
      fvalue = js ''not-an-email'', defaultValue = [], required = False, aria_invalid = None\<rparr>
     [js ''email-error'' \<mapsto> []] =
     (False,
      \<lparr>fid = js ''email'', fname = js ''email'', ftype = js ''email'',
       fvalue = js ''not-an-email'', defaultValue = [], required = False,
       aria_invalid = Some (js ''true'')\<rparr>,
      [js ''email-error'' \<mapsto> js ''Please enter a valid email address'']) \<and>
   validateField
     \<lparr>fid = js ''email'', fname = js ''email'', ftype = js ''email'',
      fvalue = js ''a@b.co'', defaultValue = [], required = True, aria_invalid = None\<rparr>
     [js ''email-error'' \<mapsto> js ''This field is required''] =
     (True,
      \<lparr>fid = js ''email'', fname = js ''email'', ftype = js ''email'',
       fvalue = js ''a@b.co'', defaultValue = [], required = True,
       aria_invalid = Some (js ''false'')\<rparr>,
      [js ''email-error'' \<mapsto> []]) \<and>
   isValidEmail (js ''a@b.co'') \<and> \<not> isValidEmail (js ''a@b.'') \<and>
   \<not> isValidEmail (js ''a b@c.de'')"
proof -
  have el: "js ''email'' @ js ''-error'' = js ''email-error''"
    by (simp add: js_def)
  show ?thesis
    using isValidEmail_accepts
      [of "\<lparr>fid = js ''email'', fname = js ''email'', ftype = js ''email'',
            fvalue = js ''not-an-email'', defaultValue = [], required = False,
            aria_invalid = None\<rparr>"
          "[js ''email-error'' \<mapsto> []]" "js ''a@b.co''"]
      isValidEmail_accepts
      [of "\<lparr>fid = js ''email'', fname = js ''email'', ftype = js ''email'',
            fvalue = js ''a@b.co'', defaultValue = [], required = True, aria_invalid = None\<rparr>"
          "[js ''email-error'' \<mapsto> js ''This field is required'']" "js ''a@b.''"]
      isValidEmail_accepts [where s = "js ''a b@c.de''"]
    by (simp add: setErrorText_def el)
      (simp add: js_def local_part_def domain_part_def is_space_def)
qed

subsection \<open>The boundary of the message length\<close>

text \<open>
  Claim C4, as stated, fails: when the field with id \<open>message\<close> is an e-mail input, a
  value of trimmed length 10 that is no e-mail address is marked invalid, and one of
  trimmed length 9 gets the e-mail format message, not the minimum-length message.
\<close>

theorem message_length_boundary_counterexample:
  "length (trim (js ''1234567890'')) = 10 \<and>
   validateField (email_typed_message (js ''1234567890'')) (message_error_element []) =
     (False, (email_typed_message (js ''1234567890''))\<lparr>aria_invalid := Some (js ''true'')\<rparr>,
      message_error_element (js ''Please enter a valid email address'')) \<and>
   length (trim (js ''123456789'')) = 9 \<and>
   validateField (email_typed_message (js ''123456789'')) (message_error_element []) =
     (False, (email_typed_message (js ''123456789''))\<lparr>aria_invalid := Some (js ''true'')\<rparr>,
      message_error_element (js ''Please enter a valid email address''))"
proof -
  have t: "trim (js ''1234567890'') = js ''1234567890''"
    "trim (js ''123456789'') = js ''123456789''"
    by (simp_all add: trim_def js_def is_space_def)
  have l: "length (js ''1234567890'') = 10" "length (js ''123456789'') = 9"
    "js ''1234567890'' \<noteq> []" "js ''123456789'' \<noteq> []"
    "js ''message'' @ js ''-error'' = js ''message-error''"
    by (simp_all add: js_def)
  have bad: "\<not> isValidEmail (js ''1234567890'')" "\<not> isValidEmail (js ''123456789'')"
    by (simp_all add: isValidEmail_def regex_test_def emailRegex_def js_def is_space_def)
  show ?thesis
    by (simp add: validateField_def checkField_def email_typed_message_def
        message_error_element_def setErrorText_def js_bool_def t l bad)
qed

text \<open>
  Claim C4, amended.  For the message field, unless it is an e-mail typed field whose
  trimmed value is non-empty and fails the e-mail pattern (the rule that is checked
  first), a value of trimmed length 9 is marked invalid with "Message must be at least
  10 characters", and a value of trimmed length 10 is marked valid.
\<close>

theorem message_length_boundary:
  "fid f = js ''message'' \<Longrightarrow> \<not> rule_email f \<Longrightarrow>
   (length (trim (fvalue f)) = 9 \<longrightarrow>
      validateField f doc =
        (False, f\<lparr>aria_invalid := Some (js ''true'')\<rparr>,
         setErrorText (fid f) (js ''Message must be at least 10 characters'') doc)) \<and>
   (length (trim (fvalue f)) = 10 \<longrightarrow>
      validateField f doc =
        (True, f\<lparr>aria_invalid := Some (js ''false'')\<rparr>, setErrorText (fid f) [] doc))"
  by (auto simp: validateField_def checkField_def rule_email_def js_bool_def Let_def)

theorem message_length_boundary_witness:
  "validateField
     \<lparr>fid = js ''message'', fname = js ''message'', ftype = js ''textarea'',
      fvalue = js '' 123456789 '', defaultValue = [], required = True, aria_invalid = None\<rparr>
     [js ''message-error'' \<mapsto> []] =
     (False,
      \<lparr>fid = js ''message'', fname = js ''message'', ftype = js ''textarea'',
       fvalue = js '' 123456789 '', defaultValue = [], required = True,
       aria_invalid = Some (js ''true'')\<rparr>,
      [js ''message-error'' \<mapsto> js ''Message must be at least 10 characters'']) \<and>
   validateField
     \<lparr>fid = js ''message'', fname = js ''message'', ftype = js ''textarea'',
      fvalue = js '' 1234567890 '', defaultValue = [], required = True, aria_invalid = None\<rparr>
     [js ''message-error'' \<mapsto> []] =
     (True,
      \<lparr>fid = js ''message'', fname = js ''message'', ftype = js ''textarea'',
       fvalue = js '' 1234567890 '', defaultValue = [], required = True,
       aria_invalid = Some (js ''false'')\<rparr>,
      [js ''message-error'' \<mapsto> []])"
proof -
  have t: "trim (js '' 123456789 '') = js ''123456789''"
    "trim (js '' 1234567890 '') = js ''1234567890''"
    by (simp_all add: trim_def js_def is_space_def)
  have l: "length (js ''123456789'') = 9" "length (js ''1234567890'') = 10"
    "js ''textarea'' \<noteq> js ''email''"
    "js ''message'' @ js ''-error'' = js ''message-error''"
    by (simp_all add: js_def)
  show ?thesis
    using message_length_boundary
      [of "\<lparr>fid = js ''message'', fname = js ''message'', ftype = js ''textarea'',
            fvalue = js '' 123456789 '', defaultValue = [], required = True,
            aria_invalid = None\<rparr>"
          "[js ''message-error'' \<mapsto> []]"]
      message_length_boundary
      [of "\<lparr>fid = js ''message'', fname = js ''message'', ftype = js ''textarea'',
            fvalue = js '' 1234567890 '', defaultValue = [], required = True,
            aria_invalid = None\<rparr>"
          "[js ''message-error'' \<mapsto> []]"]
    by (simp add: rule_email_def setErrorText_def t l)
qed


section \<open>Properties of debounce\<close>

lemma executedFunction_eq:
  "one_pending s \<Longrightarrow>
   executedFunction wait a t s =
     s\<lparr>pending := [(nextTimer s, t + wait, a)], nextTimer := Suc (nextTimer s),
       timeout := Some (nextTimer s)\<rparr>"
  by (auto simp: one_pending_def executedFunction_def clearTimeout_def setTimeout_def
      split: option.splits)

lemma executedFunction_one_pending:
  "one_pending s \<Longrightarrow> one_pending (executedFunction wait a t s)"
  by (simp add: executedFunction_eq) (simp add: one_pending_def)

lemma runTimers_none: "pending s = [] \<Longrightarrow> runTimers cb t s = s"
  by (simp add: runTimers_def)

lemma runTimers_not_due:
  "pending s = [(i, due, args)] \<Longrightarrow> t < due \<Longrightarrow> runTimers cb t s = s"
  by (simp add: runTimers_def)

lemma runTimers_later:
  "pending s = [(i, due, args)] \<Longrightarrow> due \<le> t \<Longrightarrow>
   runTimers later t s = s\<lparr>pending := [], calls := calls s @ [(args, due)]\<rparr>"
  by (simp add: runTimers_def fireTimer_def later_def clearTimeout_def split: option.splits)

lemma runTimers_later_standard:
  "pending s = [(i, due, args)] \<Longrightarrow> due \<le> t \<Longrightarrow>
   runTimers later_standard t s = s\<lparr>pending := [], calls := calls s @ [(args, due)]\<rparr>"
  by (simp add: runTimers_def fireTimer_def later_standard_def)

lemma runTimers_same:
  assumes "one_pending s"
  shows "runTimers later t s = runTimers later_standard t s \<and> one_pending (runTimers later t s)"
proof (cases "pending s = []")
  case True
  with assms show ?thesis by (simp add: runTimers_none)
next
  case False
  with assms obtain i due args where p: "pending s = [(i, due, args)]"
    by (auto simp: one_pending_def)
  show ?thesis
  proof (cases "due \<le> t")
    case True
    with p show ?thesis
      by (simp add: runTimers_later runTimers_later_standard one_pending_def)
  next
    case False
    then have "t < due" by simp
    with p assms show ?thesis by (simp add: runTimers_not_due)
  qed
qed

lemma invocations_same:
  "one_pending s \<Longrightarrow>
   invocations later wait evs s = invocations later_standard wait evs s \<and>
   one_pending (invocations later wait evs s)"
proof (induction evs arbitrary: s)
  case Nil
  then show ?case by simp
next
  case (Cons e evs)
  obtain t a where e: "e = (t, a)" by (cases e)
  from runTimers_same [OF Cons.prems, of t]
  have r1: "runTimers later t s = runTimers later_standard t s"
    and r2: "one_pending (runTimers later t s)"
    by blast+
  from r2 have "one_pending (executedFunction wait a t (runTimers later t s))"
    by (rule executedFunction_one_pending)
  from Cons.IH [OF this]
  have i1: "invocations later wait evs (executedFunction wait a t (runTimers later t s)) =
      invocations later_standard wait evs (executedFunction wait a t (runTimers later t s))"
    and i2: "one_pending
      (invocations later wait evs (executedFunction wait a t (runTimers later t s)))"
    by blast+
  have l: "invocations later wait (e # evs) s =
      invocations later wait evs (executedFunction wait a t (runTimers later t s))"
    by (simp add: e)
  have r: "invocations later_standard wait (e # evs) s =
      invocations later_standard wait evs (executedFunction wait a t (runTimers later t s))"
    by (simp add: e r1)
  from i1 i2 show ?case unfolding l r by blast
qed

lemma debounce_one_pending: "one_pending debounce"
  by (simp add: one_pending_def debounce_def)

lemma run_debounced_same:
  "run_debounced later wait evs until = run_debounced later_standard wait evs until"
proof -
  from invocations_same [OF debounce_one_pending, of wait evs]
  have i1: "invocations later wait evs debounce = invocations later_standard wait evs debounce"
    and i2: "one_pending (invocations later wait evs debounce)"
    by blast+
  from runTimers_same [OF i2, of until]
  have "runTimers later until (invocations later wait evs debounce) =
      runTimers later_standard until (invocations later wait evs debounce)"
    by blast
  then show ?thesis
    by (simp add: run_debounced_def i1)
qed

text \<open>
  Through a burst no timer fires: after it the only pending timer is the one set by the
  last invocation, and \<open>func\<close> has not been called.
\<close>

lemma burst_invocations:
  "burst wait ((t, a) # evs) \<Longrightarrow> one_pending s \<Longrightarrow>
   (\<forall>i due args. pending s = [(i, due, args)] \<longrightarrow> t < due) \<Longrightarrow>
   \<exists>k. pending (invocations later wait ((t, a) # evs) s) =
         [(k, fst (last ((t, a) # evs)) + wait, snd (last ((t, a) # evs)))] \<and>
       calls (invocations later wait ((t, a) # evs) s) = calls s"
proof (induction evs arbitrary: t a s)
  case Nil
  have r: "runTimers later t s = s"
  proof (cases "pending s = []")
    case True
    then show ?thesis by (rule runTimers_none)
  next
    case False
    with Nil.prems(2) obtain i due args where p: "pending s = [(i, due, args)]"
      by (auto simp: one_pending_def)
    with Nil.prems(3) have "t < due" by blast
    with p show ?thesis by (rule runTimers_not_due)
  qed
  show ?case
    by (simp add: r executedFunction_eq [OF Nil.prems(2)])
next
  case (Cons e evs)
  obtain t' a' where e: "e = (t', a')" by (cases e)
  from Cons.prems(1) have b: "t \<le> t'" "t' < t + wait" "burst wait ((t', a') # evs)"
    by (simp_all add: e)
  have r: "runTimers later t s = s"
  proof (cases "pending s = []")
    case True
    then show ?thesis by (rule runTimers_none)
  next
    case False
    with Cons.prems(2) obtain i due args where p: "pending s = [(i, due, args)]"
      by (auto simp: one_pending_def)
    with Cons.prems(3) have "t < due" by blast
    with p show ?thesis by (rule runTimers_not_due)
  qed
  let ?s1 = "executedFunction wait a t s"
  have s1: "?s1 = s\<lparr>pending := [(nextTimer s, t + wait, a)], nextTimer := Suc (nextTimer s),
       timeout := Some (nextTimer s)\<rparr>"
    by (rule executedFunction_eq [OF Cons.prems(2)])
  have o: "one_pending ?s1" by (rule executedFunction_one_pending [OF Cons.prems(2)])
  have n: "\<forall>i due args. pending ?s1 = [(i, due, args)] \<longrightarrow> t' < due"
    using b(2) by (simp add: s1)
  from Cons.IH [OF b(3) o n] obtain k where
    k: "pending (invocations later wait ((t', a') # evs) ?s1) =
         [(k, fst (last ((t', a') # evs)) + wait, snd (last ((t', a') # evs)))]"
       "calls (invocations later wait ((t', a') # evs) ?s1) = calls ?s1"
    by blast
  have "invocations later wait ((t, a) # e # evs) s =
      invocations later wait ((t', a') # evs) ?s1"
    by (simp add: r e)
  with k show ?case by (simp add: e s1)
qed

text \<open>
  Claim C8.  The debounce wrapper of the source, whose scheduled callback calls
  \<open>clearTimeout\<close> again, behaves as the standard one that clears only before scheduling:
  for every sequence of invocations and every later moment the two runs end in the same
  state, with the same calls of \<open>func\<close>.  For every burst, once the wait interval has
  elapsed since the last invocation, \<open>func\<close> has been called exactly once, with the
  arguments of the last invocation, at that invocation's time plus the wait; before
  that it has not been called.
\<close>

theorem debounce_last_call_only:
  "run_debounced later wait evs until = run_debounced later_standard wait evs until \<and>
   (evs \<noteq> [] \<and> burst wait evs \<and> fst (last evs) + wait \<le> until \<longrightarrow>
      calls (run_debounced later wait evs until) = [(snd (last evs), fst (last evs) + wait)]) \<and>
   (evs \<noteq> [] \<and> burst wait evs \<and> until < fst (last evs) + wait \<longrightarrow>
      calls (run_debounced later wait evs until) = [])"
proof -
  have rest: "calls (run_debounced later wait evs until) =
      (if fst (last evs) + wait \<le> until then [(snd (last evs), fst (last evs) + wait)] else [])"
    if ne: "evs \<noteq> []" and b: "burst wait evs"
  proof -
    from ne obtain t a evs' where evs: "evs = (t, a) # evs'" by (cases evs) auto
    have p: "\<forall>i due args. pending (debounce :: 'a debounced) = [(i, due, args)] \<longrightarrow> t < due"
      by (simp add: debounce_def)
    from burst_invocations [OF b [unfolded evs] debounce_one_pending p] obtain k where
      k: "pending (invocations later wait evs debounce) =
           [(k, fst (last evs) + wait, snd (last evs))]"
         "calls (invocations later wait evs debounce) = []"
      by (auto simp: evs debounce_def)
    show ?thesis
    proof (cases "fst (last evs) + wait \<le> until")
      case True
      with k show ?thesis
        by (simp add: run_debounced_def runTimers_later)
    next
      case False
      then have "until < fst (last evs) + wait" by simp
      with k False show ?thesis
        by (simp add: run_debounced_def runTimers_not_due)
    qed
  qed
  from rest run_debounced_same [of wait evs until] show ?thesis by auto
qed

theorem debounce_last_call_only_witness:
  "run_debounced later 250 [(0, ''a''), (100, ''b''), (300, ''c'')] 1000 =
     run_debounced later_standard 250 [(0, ''a''), (100, ''b''), (300, ''c'')] 1000 \<and>
   calls (run_debounced later 250 [(0, ''a''), (100, ''b''), (300, ''c'')] 1000) =
     [(''c'', 550)] \<and>
   calls (run_debounced later 250 [(0, ''a''), (100, ''b''), (300, ''c'')] 549) = []"
proof -
  let ?evs = "[(0, ''a''), (100, ''b''), (300, ''c'')] :: (nat \<times> string) list"
  have h: "?evs \<noteq> [] \<and> burst 250 ?evs \<and> fst (last ?evs) + 250 \<le> 1000"
    "?evs \<noteq> [] \<and> burst 250 ?evs \<and> 549 < fst (last ?evs) + 250"
    by simp_all
  note A = debounce_last_call_only [of 250 ?evs 1000]
  note B = debounce_last_call_only [of 250 ?evs 549]
  from A have 1: "run_debounced later 250 ?evs 1000 = run_debounced later_standard 250 ?evs 1000"
    by blast
  from A h(1) have "calls (run_debounced later 250 ?evs 1000) =
      [(snd (last ?evs), fst (last ?evs) + 250)]"
    by blast
  then have 2: "calls (run_debounced later 250 ?evs 1000) = [(''c'', 550)]" by simp
  from B h(2) have 3: "calls (run_debounced later 250 ?evs 549) = []"
    by blast
  from 1 2 3 show ?thesis by blast
qed


section \<open>Properties of smooth scroll navigation\<close>






section \<open>Properties of form submission\<close>

subsection \<open>Validation of all fields\<close>

lemma validateFields_fst:
  "fst (validateFields fs doc) = list_all (\<lambda>f. snd (checkField f)) fs"
proof (induction fs arbitrary: doc)
  case Nil
  show ?case by simp
next
  case (Cons f fs)
  obtain ok f' doc' where a: "validateField f doc = (ok, f', doc')"
    by (cases "validateField f doc") auto
  then have ok: "ok = snd (checkField f)"
    by (auto simp: validateField_def split: prod.splits)
  obtain oks fs' doc'' where b: "validateFields fs doc' = (oks, fs', doc'')"
    by (cases "validateFields fs doc'") auto
  with Cons.IH [of doc'] have "oks = list_all (\<lambda>f. snd (checkField f)) fs"
    by simp
  with a b ok show ?case by simp
qed

lemma validateFields_fields:
  "fst (snd (validateFields fs doc)) =
     map (\<lambda>f. f\<lparr>aria_invalid := Some (js_bool (\<not> snd (checkField f)))\<rparr>) fs"
proof (induction fs arbitrary: doc)
  case Nil
  show ?case by simp
next
  case (Cons f fs)
  obtain ok f' doc' where a: "validateField f doc = (ok, f', doc')"
    by (cases "validateField f doc") auto
  then have f': "f' = f\<lparr>aria_invalid := Some (js_bool (\<not> snd (checkField f)))\<rparr>"
    by (auto simp: validateField_def split: prod.splits)
  obtain oks fs' doc'' where b: "validateFields fs doc' = (oks, fs', doc'')"
    by (cases "validateFields fs doc'") auto
  with Cons.IH [of doc']
  have "fs' = map (\<lambda>f. f\<lparr>aria_invalid := Some (js_bool (\<not> snd (checkField f)))\<rparr>) fs"
    by simp
  with a b f' show ?case by simp
qed

lemma filled_fields_valid: "list_all (\<lambda>f. snd (checkField f)) filled_fields"
proof -
  have t: "trim (js ''Ada'') = js ''Ada''" "trim (js ''Hello there!'') = js ''Hello there!''"
    by (simp_all add: trim_def js_def is_space_def)
  have l: "js ''Ada'' \<noteq> []" "js ''text'' \<noteq> js ''email''" "js ''textarea'' \<noteq> js ''email''"
    "length (js ''Hello there!'') = 12" "js ''name'' \<noteq> js ''message''"
    "js ''Hello there!'' \<noteq> []"
    by (simp_all add: js_def)
  show ?thesis by (simp add: filled_fields_def checkField_def Let_def t l)
qed


subsection \<open>What the steps of a submission leave unchanged\<close>

lemma controlNames_map:
  assumes "\<And>f. fid (g f) = fid f \<and> fname (g f) = fname f \<and> ftype (g f) = ftype f"
  shows "controlNames (fm\<lparr>formFields := map g (formFields fm)\<rparr>) = controlNames fm"
proof -
  have "(\<lambda>f. if ftype f = js ''image'' then [] else [fid f, fname f]) \<circ> g =
      (\<lambda>f. if ftype f = js ''image'' then [] else [fid f, fname f])"
    by (rule ext) (simp add: assms)
  then show ?thesis by (simp add: controlNames_def)
qed

lemma shadowed_reset [simp]: "shadowed (reset fm) p = shadowed fm p"
  unfolding shadowed_def reset_def by (subst controlNames_map) simp_all

lemma shadowed_clear [simp]: "shadowed (clearValidationStates fm) p = shadowed fm p"
  unfolding shadowed_def clearValidationStates_def
  by (subst controlNames_map) (simp_all split: option.splits)

lemma shadowed_setButton [simp]: "shadowed (setButton f fm) p = shadowed fm p"
  by (simp add: shadowed_def setButton_def controlNames_def)

lemma shadowed_updates [simp]:
  "shadowed (fm\<lparr>console := c\<rparr>) p = shadowed fm p"
  "shadowed (fm\<lparr>uncaught := u\<rparr>) p = shadowed fm p"
  "shadowed (fm\<lparr>focusedField := x\<rparr>) p = shadowed fm p"
  "shadowed (fm\<lparr>errorElements := d\<rparr>) p = shadowed fm p"
  by (simp_all add: shadowed_def controlNames_def)

lemma shadowed_showFormMessage [simp]:
  "shadowed (snd (showFormMessage m t fm)) p = shadowed fm p"
  by (simp add: showFormMessage_def Let_def shadowed_def controlNames_def split: option.splits)

lemma button_showFormMessage [simp]:
  "buttonElement (snd (showFormMessage m t fm)) = buttonElement fm"
  by (simp add: showFormMessage_def Let_def split: option.splits)

lemma button_reset [simp]: "buttonElement (reset fm) = buttonElement fm"
  by (simp add: reset_def)

lemma button_clear [simp]: "buttonElement (clearValidationStates fm) = buttonElement fm"
  by (simp add: clearValidationStates_def)

lemma afterAwait_frame [simp]:
  "shadowed (snd (afterAwait result data fm)) p = shadowed fm p"
  "buttonElement (snd (afterAwait result data fm)) = buttonElement fm"
proof -
  obtain e a where s: "showFormMessage (js ''Thank you! Your message has been sent successfully.'')
      (js ''success'') fm = (e, a)"
    by (cases "showFormMessage (js ''Thank you! Your message has been sent successfully.'')
      (js ''success'') fm") auto
  have a: "shadowed a p = shadowed fm p" "buttonElement a = buttonElement fm" for p
    using shadowed_showFormMessage [of "js ''Thank you! Your message has been sent successfully.''"
        "js ''success''" fm p]
      button_showFormMessage [of "js ''Thank you! Your message has been sent successfully.''"
        "js ''success''" fm]
    by (simp_all add: s)
  show "shadowed (snd (afterAwait result data fm)) p = shadowed fm p"
    by (cases result; cases e) (simp_all add: afterAwait_def s a Let_def)
  show "buttonElement (snd (afterAwait result data fm)) = buttonElement fm"
    by (cases result; cases e) (simp_all add: afterAwait_def s a Let_def)
qed

lemma catchBlock_frame [simp]:
  "shadowed (snd (catchBlock error fm)) p = shadowed fm p"
  "buttonElement (snd (catchBlock error fm)) = buttonElement fm"
proof -
  obtain e a where s: "showFormMessage
      (js ''Sorry, there was an error sending your message. Please try again.'')
      (js ''error'') fm = (e, a)"
    by (cases "showFormMessage
      (js ''Sorry, there was an error sending your message. Please try again.'')
      (js ''error'') fm") auto
  have a: "shadowed a p = shadowed fm p" "buttonElement a = buttonElement fm" for p
    using shadowed_showFormMessage
        [of "js ''Sorry, there was an error sending your message. Please try again.''"
        "js ''error''" fm p]
      button_showFormMessage
        [of "js ''Sorry, there was an error sending your message. Please try again.''"
        "js ''error''" fm]
    by (simp_all add: s)
  show "shadowed (snd (catchBlock error fm)) p = shadowed fm p"
    by (cases e) (simp_all add: catchBlock_def s a)
  show "buttonElement (snd (catchBlock error fm)) = buttonElement fm"
    by (cases e) (simp_all add: catchBlock_def s a)
qed

text \<open>The \<open>finally\<close> block runs on every path through \<open>submitWith\<close>.\<close>

lemma submitWith_button:
  "shadowed (submitWith b result fm) p = shadowed fm p \<and>
   buttonElement (submitWith b result fm) =
     map_option (\<lambda>x. \<lparr>aria_busy = Some (js ''false''), disabled = False,
                       textContent = textContent b\<rparr>) (buttonElement fm)"
proof -
  let ?fm1 = "setButton (\<lambda>b. b\<lparr>aria_busy := Some (js ''true''), disabled := True,
                                  textContent := js ''Sending...''\<rparr>) fm"
  obtain t fm2 where a: "afterAwait result (formData ?fm1) ?fm1 = (t, fm2)"
    by (cases "afterAwait result (formData ?fm1) ?fm1") auto
  have fm2: "shadowed fm2 p = shadowed fm p" "buttonElement fm2 = buttonElement ?fm1" for p
    using afterAwait_frame [of result "formData ?fm1" ?fm1] by (simp_all add: a)
  obtain esc fm3 where c: "(case t of None \<Rightarrow> (None, fm2) | Some error \<Rightarrow> catchBlock error fm2)
      = (esc, fm3)"
    by (cases "case t of None \<Rightarrow> (None, fm2) | Some error \<Rightarrow> catchBlock error fm2") auto
  have fm3: "shadowed fm3 p = shadowed fm p" "buttonElement fm3 = buttonElement ?fm1" for p
  proof -
    show "shadowed fm3 p = shadowed fm p"
    proof (cases t)
      case None
      with c fm2 show ?thesis by simp
    next
      case (Some error)
      with c have "fm3 = snd (catchBlock error fm2)" by simp
      with fm2 show ?thesis by simp
    qed
    show "buttonElement fm3 = buttonElement ?fm1"
    proof (cases t)
      case None
      with c fm2 show ?thesis by simp
    next
      case (Some error)
      with c have "fm3 = snd (catchBlock error fm2)" by simp
      with fm2 show ?thesis by simp
    qed
  qed
  have r: "submitWith b result fm =
      (case esc of None \<Rightarrow> finallyBlock (textContent b) fm3
       | Some e \<Rightarrow> (finallyBlock (textContent b) fm3)
           \<lparr>uncaught := uncaught (finallyBlock (textContent b) fm3) @ [e]\<rparr>)"
    by (simp add: submitWith_def Let_def a c)
  have f: "shadowed (finallyBlock (textContent b) fm3) p = shadowed fm p"
    "buttonElement (finallyBlock (textContent b) fm3) =
      map_option (\<lambda>x. \<lparr>aria_busy = Some (js ''false''), disabled = False,
                       textContent = textContent b\<rparr>) (buttonElement fm)"
  proof -
    show "shadowed (finallyBlock (textContent b) fm3) p = shadowed fm p"
      by (simp add: finallyBlock_def fm3)
    have "buttonElement fm3 = map_option (\<lambda>b. b\<lparr>aria_busy := Some (js ''true''),
        disabled := True, textContent := js ''Sending...''\<rparr>) (buttonElement fm)"
      by (simp add: fm3 setButton_def)
    then show "buttonElement (finallyBlock (textContent b) fm3) =
      map_option (\<lambda>x. \<lparr>aria_busy = Some (js ''false''), disabled = False,
                       textContent = textContent b\<rparr>) (buttonElement fm)"
      by (cases "buttonElement fm") (simp_all add: finallyBlock_def setButton_def)
  qed
  show ?thesis
    by (cases esc) (simp_all add: r f)
qed

lemma handle_button:
  "submitButton fm = Some b \<Longrightarrow>
   submitButton (handleFormSubmissionWith result fm) =
     Some \<lparr>aria_busy = Some (js ''false''), disabled = False, textContent = textContent b\<rparr>"
proof -
  assume b: "submitButton fm = Some b"
  then have n: "\<not> shadowed fm (js ''querySelector'')" and e: "buttonElement fm = Some b"
    by (simp_all add: submitButton_def split: if_splits)
  from submitWith_button [of b result fm "js ''querySelector''"] n e
  have "submitButton (submitWith b result fm) =
     Some \<lparr>aria_busy = Some (js ''false''), disabled = False, textContent = textContent b\<rparr>"
    by (simp add: submitButton_def)
  with b show ?thesis by (simp add: handleFormSubmissionWith_def)
qed

lemma submitButton_validated:
  "submitButton (fm\<lparr>formFields :=
       map (\<lambda>f. f\<lparr>aria_invalid := Some (js_bool (\<not> snd (checkField f)))\<rparr>) (formFields fm),
     errorElements := doc\<rparr>) = submitButton fm"
proof -
  have "controlNames (fm\<lparr>formFields :=
       map (\<lambda>f. f\<lparr>aria_invalid := Some (js_bool (\<not> snd (checkField f)))\<rparr>) (formFields fm)\<rparr>)
     = controlNames fm"
    by (rule controlNames_map) simp
  then show ?thesis
    by (simp add: submitButton_def shadowed_def controlNames_def)
qed

subsection \<open>The submit button\<close>

text \<open>
  Claim C5.  After the submission of a form with a submit button, whether the awaited
  promise resolves or rejects, the button is enabled, its \<open>aria-busy\<close> is "false" and its
  label is the text it had before the submission; this holds for \<open>handleFormSubmission\<close>
  on any form and for the submit listener on every fully valid form.
\<close>

theorem submit_button_restored:
  "submitButton fm = Some b \<Longrightarrow>
   submitButton (handleFormSubmissionWith result fm) =
     Some \<lparr>aria_busy = Some (js ''false''), disabled = False, textContent = textContent b\<rparr> \<and>
   (fullyValid fm \<longrightarrow>
      submitButton (onSubmitWith result fm) =
        Some \<lparr>aria_busy = Some (js ''false''), disabled = False, textContent = textContent b\<rparr>)"
proof (intro conjI impI)
  assume b: "submitButton fm = Some b"
  then show "submitButton (handleFormSubmissionWith result fm) =
     Some \<lparr>aria_busy = Some (js ''false''), disabled = False, textContent = textContent b\<rparr>"
    by (rule handle_button)
  assume "fullyValid fm"
  then have v: "fst (validateFields (formFields fm) (errorElements fm))"
    by (simp add: validateFields_fst fullyValid_def)
  obtain ok fs doc where r: "validateFields (formFields fm) (errorElements fm) = (ok, fs, doc)"
    by (cases "validateFields (formFields fm) (errorElements fm)") auto
  with v have ok by simp
  with r have "onSubmitWith result fm =
      handleFormSubmissionWith result (fm\<lparr>formFields := fs, errorElements := doc\<rparr>)"
    by (simp add: onSubmitWith_def)
  moreover have "submitButton (fm\<lparr>formFields := fs, errorElements := doc\<rparr>) = Some b"
    using validateFields_fields [of "formFields fm" "errorElements fm"] r b
    by (simp add: submitButton_validated)
  ultimately show "submitButton (onSubmitWith result fm) =
     Some \<lparr>aria_busy = Some (js ''false''), disabled = False, textContent = textContent b\<rparr>"
    by (simp add: handle_button)
qed

theorem submit_button_restored_witness:
  "submitButton (onSubmitWith Resolved form_with_button) =
     Some \<lparr>aria_busy = Some (js ''false''), disabled = False, textContent = js ''Send''\<rparr> \<and>
   submitButton (onSubmitWith (Rejected (js ''offline'')) form_with_button) =
     Some \<lparr>aria_busy = Some (js ''false''), disabled = False, textContent = js ''Send''\<rparr> \<and>
   submitButton (handleFormSubmissionWith (Rejected (js ''offline'')) form_with_button) =
     Some \<lparr>aria_busy = Some (js ''false''), disabled = False, textContent = js ''Send''\<rparr>"
proof -
  have v: "fullyValid form_with_button"
    by (simp add: fullyValid_def form_with_button_def form_without_button_def filled_fields_valid)
  have b: "submitButton form_with_button =
      Some \<lparr>aria_busy = None, disabled = False, textContent = js ''Send''\<rparr>"
    by code_simp
  show ?thesis
    using submit_button_restored [OF b, of Resolved]
      submit_button_restored [OF b, of "Rejected (js ''offline'')"] v
    by simp
qed

subsection \<open>The outcome of a submission\<close>








section \<open>Properties of the mobile menu\<close>

subsection \<open>What the listeners leave unchanged\<close>

text \<open>
  A click on a toggle changes neither the listeners on the document nor which toggles
  are in the document; so do the listeners on the document, which only click a toggle.
\<close>

lemma existingButton_None: "existingButton s = None \<longleftrightarrow> (\<forall>b. \<not> inDocument s b)"
  by (auto simp: existingButton_def find_None_iff inDocument_def)

lemma existingButton_Some: "existingButton s = Some b \<Longrightarrow> inDocument s b"
  by (auto simp: existingButton_def find_Some_iff inDocument_def)

lemma toggleClick_frame [simp]:
  "clickListeners (toggleClick b s) = clickListeners s"
  "keydownListeners (toggleClick b s) = keydownListeners s"
  "navContainer (toggleClick b s) = navContainer s"
  "resizeListener (toggleClick b s) = resizeListener s"
  "length (toggles (toggleClick b s)) = length (toggles s)"
  by (simp_all add: toggleClick_def Let_def)

lemma toggleClick_inDocument [simp]: "inDocument (toggleClick b s) c = inDocument s c"
  by (cases "b < length (toggles s)")
    (auto simp: toggleClick_def Let_def inDocument_def nth_list_update)

lemma documentClick_frame [simp]:
  "clickListeners (documentClick i b s) = clickListeners s"
  "keydownListeners (documentClick i b s) = keydownListeners s"
  "navContainer (documentClick i b s) = navContainer s"
  "resizeListener (documentClick i b s) = resizeListener s"
  "length (toggles (documentClick i b s)) = length (toggles s)"
  "inDocument (documentClick i b s) c = inDocument s c"
  by (simp_all add: documentClick_def)

lemma documentKeydown_frame [simp]:
  "clickListeners (documentKeydown k b s) = clickListeners s"
  "keydownListeners (documentKeydown k b s) = keydownListeners s"
  "navContainer (documentKeydown k b s) = navContainer s"
  "resizeListener (documentKeydown k b s) = resizeListener s"
  "length (toggles (documentKeydown k b s)) = length (toggles s)"
  by (simp_all add: documentKeydown_def Let_def)

lemma inDocument_focusedToggle [simp]: "inDocument (s\<lparr>focusedToggle := x\<rparr>) c = inDocument s c"
  by (simp add: inDocument_def)

lemma documentKeydown_inDocument [simp]: "inDocument (documentKeydown k b s) c = inDocument s c"
  by (simp add: documentKeydown_def Let_def)

text \<open>What no listener of the document changes, through a whole dispatch.\<close>

lemma dispatch_click_frame [simp]:
  "clickListeners (foldl (\<lambda>s l. documentClick i l s) s ls) = clickListeners s"
  "keydownListeners (foldl (\<lambda>s l. documentClick i l s) s ls) = keydownListeners s"
  "navContainer (foldl (\<lambda>s l. documentClick i l s) s ls) = navContainer s"
  "resizeListener (foldl (\<lambda>s l. documentClick i l s) s ls) = resizeListener s"
  "length (toggles (foldl (\<lambda>s l. documentClick i l s) s ls)) = length (toggles s)"
  "inDocument (foldl (\<lambda>s l. documentClick i l s) s ls) c = inDocument s c"
  by (induction ls arbitrary: s; simp)+

lemma dispatch_keydown_frame [simp]:
  "clickListeners (foldl (\<lambda>s l. documentKeydown k l s) s ls) = clickListeners s"
  "keydownListeners (foldl (\<lambda>s l. documentKeydown k l s) s ls) = keydownListeners s"
  "navContainer (foldl (\<lambda>s l. documentKeydown k l s) s ls) = navContainer s"
  "resizeListener (foldl (\<lambda>s l. documentKeydown k l s) s ls) = resizeListener s"
  "length (toggles (foldl (\<lambda>s l. documentKeydown k l s) s ls)) = length (toggles s)"
  "inDocument (foldl (\<lambda>s l. documentKeydown k l s) s ls) c = inDocument s c"
  by (induction ls arbitrary: s; simp)+

subsection \<open>Creating and removing the toggle\<close>

lemma createMobileMenuButton_listeners:
  "navContainer s \<Longrightarrow>
   clickListeners (createMobileMenuButton s) = clickListeners s @ [length (toggles s)] \<and>
   keydownListeners (createMobileMenuButton s) = keydownListeners s @ [length (toggles s)] \<and>
   toggles (createMobileMenuButton s) =
     toggles s @ [\<lparr>aria_expanded = js ''false'', attached = True\<rparr>]"
  by (simp add: createMobileMenuButton_def Let_def)

lemma createMobileMenuButton_frame [simp]:
  "navContainer (createMobileMenuButton s) = navContainer s"
  "resizeListener (createMobileMenuButton s) = resizeListener s"
  by (simp_all add: createMobileMenuButton_def Let_def)

lemma createMobileMenuButton_inDocument:
  "navContainer s \<Longrightarrow>
   inDocument (createMobileMenuButton s) c \<longleftrightarrow> inDocument s c \<or> c = length (toggles s)"
  by (auto simp: createMobileMenuButton_def Let_def inDocument_def nth_append)

lemma remove_step:
  assumes "resizeListener s" "existingButton s = Some b" "768 \<le> w"
  shows "menu_step s (Resize w) =
     s\<lparr>innerWidth := w,
       toggles := (toggles s)[b := (toggles s ! b)\<lparr>attached := False\<rparr>],
       nav := (nav s)\<lparr>mobile_menu_open := False, aria_hidden := None\<rparr>\<rparr>"
proof -
  have "existingButton (s\<lparr>innerWidth := w\<rparr>) = Some b"
    using assms(2) by (simp add: existingButton_def)
  with assms(1,3) show ?thesis by (simp add: onResize_def)
qed

text \<open>No event takes a listener off the document.\<close>

lemma step_listeners:
  "prefix (clickListeners s) (clickListeners (menu_step s e)) \<and>
   prefix (keydownListeners s) (keydownListeners (menu_step s e))"
proof (cases e)
  case (Resize w)
  show ?thesis
    by (auto simp: Resize onResize_def createMobileMenuButton_def Let_def split: option.splits)
next
  case ToggleClick
  then show ?thesis by (simp split: option.splits)
next
  case OutsideClick
  then show ?thesis by simp
next
  case Escape
  then show ?thesis by simp
qed

lemma run_listeners:
  "prefix (clickListeners s) (clickListeners (menu_run s evs)) \<and>
   prefix (keydownListeners s) (keydownListeners (menu_run s evs))"
proof (induction evs arbitrary: s)
  case Nil
  show ?case by (simp add: menu_run_def)
next
  case (Cons e evs)
  have "menu_run s (e # evs) = menu_run (menu_step s e) evs"
    by (simp add: menu_run_def)
  with Cons.IH [of "menu_step s e"] step_listeners [of s e] show ?case
    by (auto intro: prefix_order.trans)
qed

subsection \<open>Resizes across the threshold\<close>

text \<open>
  A resize below 768 pixels makes a toggle when none is in the document; a resize to 768
  pixels or more removes the one that is.
\<close>

lemma innerWidth_frame [simp]:
  "inDocument (s\<lparr>innerWidth := w\<rparr>) c = inDocument s c"
  "existingButton (s\<lparr>innerWidth := w\<rparr>) = existingButton s"
  by (simp_all add: inDocument_def existingButton_def)

lemma down_noToggle:
  assumes "noToggle s" "lo < 768"
  shows "oneToggle (menu_step s (Resize lo)) \<and>
     clickListeners (menu_step s (Resize lo)) = clickListeners s @ [length (toggles s)] \<and>
     keydownListeners (menu_step s (Resize lo)) = keydownListeners s @ [length (toggles s)]"
proof -
  from assms(1) have c: "navContainer s" and r: "resizeListener s"
    and n: "\<forall>b. \<not> inDocument s b"
    by (simp_all add: noToggle_def)
  from n have e: "existingButton s = None" by (simp add: existingButton_None)
  have st: "menu_step s (Resize lo) = createMobileMenuButton (s\<lparr>innerWidth := lo\<rparr>)"
    using r e assms(2) by (simp add: onResize_def)
  have "\<forall>c. inDocument (menu_step s (Resize lo)) c \<longleftrightarrow> c = length (toggles s)"
    unfolding st using c n by (simp add: createMobileMenuButton_inDocument)
  then have "oneToggle (menu_step s (Resize lo))"
    using c r unfolding oneToggle_def st by auto
  then show ?thesis
    unfolding st using c by (simp add: createMobileMenuButton_listeners)
qed

lemma down_oneToggle:
  assumes "oneToggle s" "lo < 768"
  shows "menu_step s (Resize lo) = s\<lparr>innerWidth := lo\<rparr>"
proof -
  from assms(1) have r: "resizeListener s" by (simp add: oneToggle_def)
  from assms(1) obtain b where "inDocument s b" by (auto simp: oneToggle_def)
  then have "existingButton s \<noteq> None" by (auto simp: existingButton_None)
  then obtain b' where e: "existingButton s = Some b'" by auto
  show ?thesis using r e assms(2) by (simp add: onResize_def)
qed

lemma up_oneToggle:
  assumes "oneToggle s" "768 \<le> hi"
  shows "noToggle (menu_step s (Resize hi)) \<and>
     clickListeners (menu_step s (Resize hi)) = clickListeners s \<and>
     keydownListeners (menu_step s (Resize hi)) = keydownListeners s"
proof -
  from assms(1) have c: "navContainer s" and r: "resizeListener s"
    by (simp_all add: oneToggle_def)
  from assms(1) obtain b where b: "\<forall>c. inDocument s c \<longleftrightarrow> c = b"
    unfolding oneToggle_def by blast
  then have "inDocument s b" by blast
  then have "existingButton s \<noteq> None" unfolding existingButton_None by blast
  then obtain b' where e': "existingButton s = Some b'" by blast
  then have "inDocument s b'" by (rule existingButton_Some)
  with b have "b' = b" by blast
  with e' have e: "existingButton s = Some b" by simp
  note st = remove_step [OF r e assms(2)]
  have "\<not> inDocument (menu_step s (Resize hi)) c" for c
  proof
    assume "inDocument (menu_step s (Resize hi)) c"
    then have l: "c < length (toggles s)"
      and att: "attached ((toggles s)[b := (toggles s ! b)\<lparr>attached := False\<rparr>] ! c)"
      unfolding st inDocument_def by simp_all
    show False
    proof (cases "c = b")
      case True
      with l att show False by simp
    next
      case False
      with l att have "inDocument s c" by (simp add: inDocument_def)
      with b False show False by blast
    qed
  qed
  then have "\<forall>c. \<not> inDocument (menu_step s (Resize hi)) c" by blast
  moreover have "navContainer (menu_step s (Resize hi))" "resizeListener (menu_step s (Resize hi))"
    "clickListeners (menu_step s (Resize hi)) = clickListeners s"
    "keydownListeners (menu_step s (Resize hi)) = keydownListeners s"
    unfolding st using c r by simp_all
  ultimately show ?thesis by (simp only: noToggle_def simp_thms)
qed

lemma up_noToggle:
  assumes "noToggle s" "768 \<le> hi"
  shows "menu_step s (Resize hi) = s\<lparr>innerWidth := hi\<rparr>"
proof -
  from assms(1) have r: "resizeListener s" by (simp add: noToggle_def)
  from assms(1) have e: "existingButton s = None"
    by (simp add: noToggle_def existingButton_None)
  show ?thesis using r e assms(2) by (simp add: onResize_def)
qed

lemma menu_run_Cons [simp]: "menu_run s (e # evs) = menu_run (menu_step s e) evs"
  and menu_run_Nil [simp]: "menu_run s [] = s"
  by (simp_all add: menu_run_def)

lemma init_toggles:
  "toggles (initMobileMenu hasNav hasContainer w) =
     (if hasNav \<and> hasContainer \<and> w < 768 then [\<lparr>aria_expanded = js ''false'', attached = True\<rparr>]
      else [])"
  by (simp add: initMobileMenu_def createMobileMenuButton_def Let_def)

lemma init_inDocument:
  "inDocument (initMobileMenu hasNav hasContainer w) c \<longleftrightarrow>
     hasNav \<and> hasContainer \<and> w < 768 \<and> c = 0"
  by (auto simp: inDocument_def init_toggles)

lemma init_wide: "768 \<le> w \<Longrightarrow> noToggle (initMobileMenu True True w) \<and>
    clickListeners (initMobileMenu True True w) = [] \<and>
    keydownListeners (initMobileMenu True True w) = []"
  by (simp add: noToggle_def init_inDocument) (simp add: initMobileMenu_def)

lemma init_narrow: "w < 768 \<Longrightarrow> oneToggle (initMobileMenu True True w) \<and>
    clickListeners (initMobileMenu True True w) = [0] \<and>
    keydownListeners (initMobileMenu True True w) = [0]"
proof -
  assume w: "w < 768"
  then have "\<forall>c. inDocument (initMobileMenu True True w) c \<longleftrightarrow> c = 0"
    by (simp add: init_inDocument)
  then have "\<exists>b. \<forall>c. inDocument (initMobileMenu True True w) c \<longleftrightarrow> c = b"
    by (rule exI)
  moreover have "navContainer (initMobileMenu True True w)"
    "resizeListener (initMobileMenu True True w)"
    "clickListeners (initMobileMenu True True w) = [0]"
    "keydownListeners (initMobileMenu True True w) = [0]"
    using w by (simp_all add: initMobileMenu_def createMobileMenuButton_def)
  ultimately show ?thesis by (simp only: oneToggle_def simp_thms)
qed

subsection \<open>One listener pair for each toggle\<close>

lemma step_pairs_match: "pairs_match s \<Longrightarrow> pairs_match (menu_step s e)"
proof (cases e)
  case (Resize w)
  assume "pairs_match s"
  then show ?thesis
    by (auto simp: Resize pairs_match_def onResize_def createMobileMenuButton_def Let_def
        split: option.splits)
next
  case ToggleClick
  assume "pairs_match s"
  then show ?thesis by (simp add: ToggleClick pairs_match_def split: option.splits)
next
  case OutsideClick
  assume "pairs_match s"
  then show ?thesis by (simp add: OutsideClick pairs_match_def)
next
  case Escape
  assume "pairs_match s"
  then show ?thesis by (simp add: Escape pairs_match_def)
qed

lemma run_pairs_match: "pairs_match s \<Longrightarrow> pairs_match (menu_run s evs)"
  by (induction evs arbitrary: s) (simp_all add: step_pairs_match)

lemma init_listeners:
  "clickListeners (initMobileMenu hasNav hasContainer w) =
     (if hasNav \<and> hasContainer \<and> w < 768 then [0] else [])"
  "keydownListeners (initMobileMenu hasNav hasContainer w) =
     (if hasNav \<and> hasContainer \<and> w < 768 then [0] else [])"
  by (simp_all add: initMobileMenu_def createMobileMenuButton_def Let_def)

lemma init_pairs_match: "pairs_match (initMobileMenu hasNav hasContainer w)"
  by (simp add: pairs_match_def init_toggles init_listeners)

subsection \<open>At most one toggle in the document\<close>

lemma step_atMostOne: "atMostOne s \<Longrightarrow> atMostOne (menu_step s e)"
proof (cases e)
  case (Resize w)
  assume a: "atMostOne s"
  show ?thesis
  proof (cases "existingButton s")
    case None
    then have n: "\<forall>b. \<not> inDocument s b" by (simp add: existingButton_None)
    show ?thesis
    proof (cases "navContainer s")
      case True
      with n None a show ?thesis
        by (auto simp: Resize onResize_def atMostOne_def createMobileMenuButton_inDocument Let_def)
    next
      case False
      with None a show ?thesis
        by (auto simp: Resize onResize_def atMostOne_def createMobileMenuButton_def Let_def)
    qed
  next
    case (Some b)
    have "inDocument (menu_step s (Resize w)) c \<Longrightarrow> inDocument s c" for c
    proof (cases "resizeListener s \<and> 768 \<le> w")
      case True
      then have st: "menu_step s (Resize w) =
          s\<lparr>innerWidth := w,
            toggles := (toggles s)[b := (toggles s ! b)\<lparr>attached := False\<rparr>],
            nav := (nav s)\<lparr>mobile_menu_open := False, aria_hidden := None\<rparr>\<rparr>"
        using Some remove_step by blast
      assume "inDocument (menu_step s (Resize w)) c"
      then show ?thesis
        unfolding st inDocument_def by (cases "c = b") auto
    next
      case False
      with Some have "menu_step s (Resize w) = s\<lparr>innerWidth := w\<rparr>"
        by (auto simp: Resize onResize_def Let_def)
      moreover assume "inDocument (menu_step s (Resize w)) c"
      ultimately show ?thesis by simp
    qed
    with a show ?thesis unfolding atMostOne_def Resize by blast
  qed
next
  case ToggleClick
  assume "atMostOne s"
  then show ?thesis by (simp add: ToggleClick atMostOne_def split: option.splits)
next
  case OutsideClick
  assume "atMostOne s"
  then show ?thesis by (simp add: OutsideClick atMostOne_def)
next
  case Escape
  assume "atMostOne s"
  then show ?thesis by (simp add: Escape atMostOne_def)
qed

lemma run_atMostOne: "atMostOne s \<Longrightarrow> atMostOne (menu_run s evs)"
  by (induction evs arbitrary: s) (simp_all add: step_atMostOne)

lemma init_atMostOne: "atMostOne (initMobileMenu hasNav hasContainer w)"
  by (simp add: atMostOne_def init_inDocument)

lemma togglesInDocument_atMostOne: "atMostOne s \<Longrightarrow> length (togglesInDocument s) \<le> 1"
proof -
  assume a: "atMostOne s"
  have d: "distinct (togglesInDocument s)" by (simp add: togglesInDocument_def)
  have "set (togglesInDocument s) \<subseteq> {b. inDocument s b}"
    by (auto simp: togglesInDocument_def inDocument_def)
  show ?thesis
  proof (cases "togglesInDocument s")
    case Nil
    then show ?thesis by simp
  next
    case (Cons x xs)
    show ?thesis
    proof (cases xs)
      case Nil
      with Cons show ?thesis by simp
    next
      case (Cons y ys)
      with \<open>togglesInDocument s = x # xs\<close> have xy: "togglesInDocument s = x # y # ys" by simp
      with d have "x \<noteq> y" by simp
      moreover have "inDocument s x" "inDocument s y"
        using xy \<open>set (togglesInDocument s) \<subseteq> {b. inDocument s b}\<close> by auto
      ultimately show ?thesis using a by (auto simp: atMostOne_def)
    qed
  qed
qed

subsection \<open>Counting the listeners\<close>

lemma toggleClick_innerWidth [simp]: "innerWidth (toggleClick b s) = innerWidth s"
  by (simp add: toggleClick_def Let_def)

lemma documentClick_innerWidth [simp]: "innerWidth (documentClick i b s) = innerWidth s"
  by (simp add: documentClick_def)

lemma documentKeydown_innerWidth [simp]: "innerWidth (documentKeydown k b s) = innerWidth s"
  by (simp add: documentKeydown_def Let_def)

lemma dispatch_innerWidth [simp]:
  "innerWidth (foldl (\<lambda>s l. documentClick i l s) s ls) = innerWidth s"
  "innerWidth (foldl (\<lambda>s l. documentKeydown k l s) s ls) = innerWidth s"
  by (induction ls arbitrary: s; simp)+

lemma click_frame:
  assumes "e \<noteq> Resize w" "\<And>w. e \<noteq> Resize w"
  shows "innerWidth (menu_step s e) = innerWidth s"
    and "clickListeners (menu_step s e) = clickListeners s"
    and "keydownListeners (menu_step s e) = keydownListeners s"
    and "navContainer (menu_step s e) = navContainer s"
    and "resizeListener (menu_step s e) = resizeListener s"
    and "inDocument (menu_step s e) c = inDocument s c"
  using assms(2) by (cases e; simp split: option.splits)+

lemma click_tracked:
  assumes "\<And>w. e \<noteq> Resize w" "tracked s"
  shows "tracked (menu_step s e)"
proof -
  note f = click_frame [OF assms(1) assms(1), of s]
  have o: "oneToggle (menu_step s e) = oneToggle s"
    and n: "noToggle (menu_step s e) = noToggle s"
    unfolding oneToggle_def noToggle_def by (simp_all only: f)
  from assms(2) show ?thesis
    unfolding tracked_def by (simp only: f o n)
qed

lemma resize_innerWidth: "innerWidth (menu_step s (Resize w)) = w"
  by (simp add: onResize_def createMobileMenuButton_def Let_def split: option.splits)

lemma resize_tracked:
  assumes "tracked s"
  shows "tracked (menu_step s (Resize w)) \<and>
     length (clickListeners (menu_step s (Resize w))) =
       length (clickListeners s) + (if 768 \<le> innerWidth s \<and> w < 768 then 1 else 0) \<and>
     length (keydownListeners (menu_step s (Resize w))) =
       length (keydownListeners s) + (if 768 \<le> innerWidth s \<and> w < 768 then 1 else 0)"
proof (cases "innerWidth s < 768")
  case True
  with assms have o: "oneToggle s" by (simp add: tracked_def)
  show ?thesis
  proof (cases "w < 768")
    case w: True
    have st: "menu_step s (Resize w) = s\<lparr>innerWidth := w\<rparr>"
      using o w by (rule down_oneToggle)
    have "oneToggle (s\<lparr>innerWidth := w\<rparr>)" using o by (simp add: oneToggle_def)
    with w True show ?thesis unfolding st by (simp add: tracked_def)
  next
    case w: False
    then have "768 \<le> w" by simp
    from up_oneToggle [OF o this]
    have u: "noToggle (menu_step s (Resize w))"
      "clickListeners (menu_step s (Resize w)) = clickListeners s"
      "keydownListeners (menu_step s (Resize w)) = keydownListeners s"
      by blast+
    have "tracked (menu_step s (Resize w))"
      unfolding tracked_def resize_innerWidth using w u(1) by simp
    with u True show ?thesis by (simp del: menu_step.simps)
  qed
next
  case False
  with assms have n: "noToggle s" by (simp add: tracked_def)
  show ?thesis
  proof (cases "w < 768")
    case w: True
    from down_noToggle [OF n w]
    have d: "oneToggle (menu_step s (Resize w))"
      "clickListeners (menu_step s (Resize w)) = clickListeners s @ [length (toggles s)]"
      "keydownListeners (menu_step s (Resize w)) = keydownListeners s @ [length (toggles s)]"
      by blast+
    have "tracked (menu_step s (Resize w))"
      unfolding tracked_def resize_innerWidth using w d(1) by simp
    with d w False show ?thesis by (simp del: menu_step.simps)
  next
    case w: False
    then have "768 \<le> w" by simp
    then have st: "menu_step s (Resize w) = s\<lparr>innerWidth := w\<rparr>"
      using n by (intro up_noToggle)
    have "noToggle (s\<lparr>innerWidth := w\<rparr>)" using n by (simp add: noToggle_def)
    with w False show ?thesis unfolding st by (simp add: tracked_def)
  qed
qed

lemma run_tracked:
  "tracked s \<Longrightarrow>
   length (clickListeners (menu_run s evs)) = length (clickListeners s) + crossings (innerWidth s) evs \<and>
   length (keydownListeners (menu_run s evs)) =
     length (keydownListeners s) + crossings (innerWidth s) evs"
proof (induction evs arbitrary: s)
  case Nil
  show ?case by simp
next
  case (Cons e evs)
  show ?case
  proof (cases "\<exists>w. e = Resize w")
    case True
    then obtain w where e: "e = Resize w" by blast
    note r = resize_tracked [OF Cons.prems, of w]
    then have "tracked (menu_step s (Resize w))" by blast
    from Cons.IH [OF this] r show ?thesis
      by (simp add: e resize_innerWidth del: menu_step.simps)
  next
    case False
    then have ne: "\<And>w. e \<noteq> Resize w" by blast
    note t = click_tracked [OF ne Cons.prems]
    have c: "crossings (innerWidth s) (e # evs) = crossings (innerWidth s) evs"
      using ne by (cases e) auto
    from Cons.IH [OF t] click_frame(1-3) [OF ne ne, of s] show ?thesis
      by (simp add: c del: menu_step.simps)
  qed
qed

lemma init_tracked: "tracked (initMobileMenu True True w)"
proof (cases "w < 768")
  case True
  from init_narrow [OF True] True show ?thesis
    by (simp add: tracked_def initMobileMenu_def createMobileMenuButton_def)
next
  case False
  then have "768 \<le> w" by simp
  from init_wide [OF this] False show ?thesis
    by (simp add: tracked_def initMobileMenu_def)
qed

lemma init_innerWidth: "innerWidth (initMobileMenu hasNav hasContainer w) = w"
  by (simp add: initMobileMenu_def createMobileMenuButton_def Let_def)

lemma step_inert: "inert s \<Longrightarrow> inert (menu_step s e)"
proof (cases e)
  case (Resize w)
  assume "inert s"
  then show ?thesis
    by (auto simp: Resize inert_def onResize_def createMobileMenuButton_def existingButton_def
        Let_def)
next
  case ToggleClick
  assume "inert s"
  then show ?thesis by (simp add: ToggleClick inert_def existingButton_def)
next
  case OutsideClick
  assume "inert s"
  then show ?thesis by (simp add: OutsideClick inert_def)
next
  case Escape
  assume "inert s"
  then show ?thesis by (simp add: Escape inert_def)
qed

lemma run_inert: "inert s \<Longrightarrow> inert (menu_run s evs)"
  by (induction evs arbitrary: s) (simp_all add: step_inert del: menu_step.simps)

lemma init_inert: "\<not> (hasNav \<and> hasContainer) \<Longrightarrow> inert (initMobileMenu hasNav hasContainer w)"
  by (auto simp: inert_def initMobileMenu_def createMobileMenuButton_def Let_def)

lemma listeners_count:
  "length (clickListeners (menu_run (initMobileMenu hasNav hasContainer w0) evs)) =
     (if hasNav \<and> hasContainer then (if w0 < 768 then 1 else 0) + crossings w0 evs else 0) \<and>
   length (keydownListeners (menu_run (initMobileMenu hasNav hasContainer w0) evs)) =
     (if hasNav \<and> hasContainer then (if w0 < 768 then 1 else 0) + crossings w0 evs else 0)"
proof (cases "hasNav \<and> hasContainer")
  case True
  then have h: "hasNav" "hasContainer" by simp_all
  from run_tracked [OF init_tracked, of w0 evs] show ?thesis
    by (simp add: h init_innerWidth init_listeners)
next
  case False
  from run_inert [OF init_inert [OF False], of w0 evs]
  have "clickListeners (menu_run (initMobileMenu hasNav hasContainer w0) evs) = []"
    "keydownListeners (menu_run (initMobileMenu hasNav hasContainer w0) evs) = []"
    by (simp_all add: inert_def)
  with False show ?thesis by auto
qed

subsection \<open>The invariant of the menu\<close>

text \<open>In every reachable state at most one toggle is in the document.\<close>

lemma reachable_atMostOne:
  "length (togglesInDocument (menu_run (initMobileMenu hasNav hasContainer w) evs)) \<le> 1"
  by (intro togglesInDocument_atMostOne run_atMostOne init_atMostOne)

text \<open>
  Claim C6.  The claim is that in every reachable state at most one toggle is in the
  document and the menu is visible exactly when that toggle is marked expanded.  The
  second part does not hold of the code: after \<open>stale_toggle_events\<close> the one toggle in
  the document is marked expanded and the menu is hidden.  The click outside the
  navigation was handled by the listener of the first toggle, which is no longer in the
  document and was still marked expanded.
\<close>

theorem menu_inconsistent_after_stale_click:
  "togglesInDocument (menu_run (initMobileMenu True True 600) stale_toggle_events) = [1] \<and>
   toggleExpanded (menu_run (initMobileMenu True True 600) stale_toggle_events) 1 \<and>
   \<not> menuVisible (menu_run (initMobileMenu True True 600) stale_toggle_events) \<and>
   \<not> menu_consistent (menu_run (initMobileMenu True True 600) stale_toggle_events)"
  by code_simp

subsection \<open>The listeners on the document\<close>

text \<open>
  Claim C10, as stated, fails twice: on a page without a \<open>.nav-container\<close> a crossing
  below 768 pixels registers no listener, and on a page loaded below 768 pixels one
  crossing below 768 pixels leaves two listener pairs.
\<close>

theorem listeners_per_crossing_counterexample:
  "clickListeners (menu_run (initMobileMenu True False 1024) [Resize 600]) = [] \<and>
   keydownListeners (menu_run (initMobileMenu True False 1024) [Resize 600]) = [] \<and>
   clickListeners (menu_run (initMobileMenu True True 600) [Resize 1024, Resize 600]) = [0, 1] \<and>
   keydownListeners (menu_run (initMobileMenu True True 600) [Resize 1024, Resize 600]) = [0, 1]"
  by code_simp

text \<open>
  Claim C10, amended.  On a page with a \<open>nav ul\<close> and a \<open>.nav-container\<close> every call of
  \<open>createMobileMenuButton\<close> registers one click listener and one keydown listener on the
  document (without the container the call does nothing); no event ever unregisters a
  listener; the resize that removes the toggle changes only the toggle's presence and
  the menu's class and \<open>aria-hidden\<close>; there is one listener pair for each toggle made so
  far.  So after any sequence of events the number of listener pairs is the number of
  crossings below 768 pixels seen by the resize handler, plus one if the page was loaded
  below 768 pixels; on a page without \<open>nav ul\<close> or without \<open>.nav-container\<close> it is zero.
\<close>

theorem listeners_accumulate:
  "(navContainer s \<longrightarrow>
      clickListeners (createMobileMenuButton s) = clickListeners s @ [length (toggles s)] \<and>
      keydownListeners (createMobileMenuButton s) = keydownListeners s @ [length (toggles s)]) \<and>
   (\<not> navContainer s \<longrightarrow> createMobileMenuButton s = s) \<and>
   (resizeListener s \<and> existingButton s = Some b \<and> 768 \<le> w \<longrightarrow>
      menu_step s (Resize w) =
        s\<lparr>innerWidth := w,
          toggles := (toggles s)[b := (toggles s ! b)\<lparr>attached := False\<rparr>],
          nav := (nav s)\<lparr>mobile_menu_open := False, aria_hidden := None\<rparr>\<rparr>) \<and>
   prefix (clickListeners s) (clickListeners (menu_run s evs)) \<and>
   prefix (keydownListeners s) (keydownListeners (menu_run s evs)) \<and>
   pairs_match (menu_run (initMobileMenu hasNav hasContainer w0) evs) \<and>
   length (clickListeners (menu_run (initMobileMenu hasNav hasContainer w0) evs)) =
     (if hasNav \<and> hasContainer then (if w0 < 768 then 1 else 0) + crossings w0 evs else 0) \<and>
   length (keydownListeners (menu_run (initMobileMenu hasNav hasContainer w0) evs)) =
     (if hasNav \<and> hasContainer then (if w0 < 768 then 1 else 0) + crossings w0 evs else 0)"
proof -
  have a: "navContainer s \<longrightarrow>
      clickListeners (createMobileMenuButton s) = clickListeners s @ [length (toggles s)] \<and>
      keydownListeners (createMobileMenuButton s) = keydownListeners s @ [length (toggles s)]"
    by (simp add: createMobileMenuButton_listeners)
  have b: "\<not> navContainer s \<longrightarrow> createMobileMenuButton s = s"
    by (simp add: createMobileMenuButton_def)
  have c: "resizeListener s \<and> existingButton s = Some b \<and> 768 \<le> w \<longrightarrow>
      menu_step s (Resize w) =
        s\<lparr>innerWidth := w,
          toggles := (toggles s)[b := (toggles s ! b)\<lparr>attached := False\<rparr>],
          nav := (nav s)\<lparr>mobile_menu_open := False, aria_hidden := None\<rparr>\<rparr>"
    using remove_step by blast
  note d = run_listeners [of s evs]
  have e: "pairs_match (menu_run (initMobileMenu hasNav hasContainer w0) evs)"
    by (intro run_pairs_match init_pairs_match)
  note f = listeners_count [of hasNav hasContainer w0 evs]
  from a b c d e f show ?thesis by blast
qed

text \<open>
  The theorem on a page loaded at 600 pixels, through \<open>stale_toggle_events\<close> (one
  crossing, two pairs); on a page loaded at 1024 pixels and resized to 600 and then to
  500 pixels (one crossing, one pair); and on a page without \<open>nav ul\<close>.
\<close>

theorem listeners_accumulate_witness:
  "clickListeners (createMobileMenuButton (initMobileMenu True True 600)) = [0, 1] \<and>
   keydownListeners (createMobileMenuButton (initMobileMenu True True 600)) = [0, 1] \<and>
   createMobileMenuButton (initMobileMenu True False 600) = initMobileMenu True False 600 \<and>
   clickListeners (menu_step (initMobileMenu True True 600) (Resize 1024)) = [0] \<and>
   keydownListeners (menu_step (initMobileMenu True True 600) (Resize 1024)) = [0] \<and>
   prefix [0] (clickListeners (menu_run (initMobileMenu True True 600) stale_toggle_events)) \<and>
   length (clickListeners (menu_run (initMobileMenu True True 600) stale_toggle_events)) = 2 \<and>
   length (keydownListeners (menu_run (initMobileMenu True True 600) stale_toggle_events)) = 2 \<and>
   length (clickListeners (menu_run (initMobileMenu True True 1024) [Resize 600, Resize 500])) = 1 \<and>
   length (keydownListeners (menu_run (initMobileMenu False True 600) [Resize 1024, Resize 600])) = 0"
proof -
  let ?s = "initMobileMenu True True 600"
  let ?t = "initMobileMenu True False 600"
  have h: "navContainer ?s" "resizeListener ?s" "existingButton ?s = Some 0"
    "\<not> navContainer ?t" "clickListeners ?s = [0]" "keydownListeners ?s = [0]"
    "length (toggles ?s) = 1"
    by code_simp+
  have n: "(768::nat) \<le> 1024" by simp
  have cr: "crossings 600 stale_toggle_events = 1" "crossings 1024 [Resize 600, Resize 500] = 1"
    "crossings 600 [Resize 1024, Resize 600] = 1"
    by (simp_all add: stale_toggle_events_def)
  note A = listeners_accumulate
    [where s = ?s and b = 0 and w = 1024 and evs = stale_toggle_events and hasNav = True
      and hasContainer = True and ?w0.0 = 600]
  note B = listeners_accumulate
    [where s = ?t and evs = "[Resize 600, Resize 500]" and hasNav = True
      and hasContainer = True and ?w0.0 = 1024]
  note C = listeners_accumulate
    [where s = ?t and evs = "[Resize 1024, Resize 600]" and hasNav = False
      and hasContainer = True and ?w0.0 = 600]
  from A h have 1: "clickListeners (createMobileMenuButton ?s) = [0, 1]"
    "keydownListeners (createMobileMenuButton ?s) = [0, 1]"
    by simp_all
  from B h have 2: "createMobileMenuButton ?t = ?t" by blast
  from A h n have "menu_step ?s (Resize 1024) =
      ?s\<lparr>innerWidth := 1024,
        toggles := (toggles ?s)[0 := (toggles ?s ! 0)\<lparr>attached := False\<rparr>],
        nav := (nav ?s)\<lparr>mobile_menu_open := False, aria_hidden := None\<rparr>\<rparr>"
    by blast
  with h have 3: "clickListeners (menu_step ?s (Resize 1024)) = [0]"
    "keydownListeners (menu_step ?s (Resize 1024)) = [0]"
    by simp_all
  from A h have 4: "prefix [0] (clickListeners (menu_run ?s stale_toggle_events))"
    by simp
  from A cr have 5: "length (clickListeners (menu_run ?s stale_toggle_events)) = 2"
    "length (keydownListeners (menu_run ?s stale_toggle_events)) = 2"
    by simp_all
  from B cr have 6:
    "length (clickListeners (menu_run (initMobileMenu True True 1024) [Resize 600, Resize 500])) = 1"
    by simp
  from C have 7:
    "length (keydownListeners (menu_run (initMobileMenu False True 600) [Resize 1024, Resize 600])) = 0"
    by simp
  from 1 2 3 4 5 6 7 show ?thesis by simp
qed


section \<open>Properties of the scroll-triggered animations\<close>

lemma count_list_distinct: "distinct xs \<Longrightarrow> count_list xs x = (if x \<in> set xs then 1 else 0)"
  by (induction xs) auto

lemma observerCallback_Nil [simp]: "observerCallback [] s = s"
  and observerCallback_Cons [simp]:
    "observerCallback (e # es) s = observerCallback es (onEntry s e)"
  by (simp_all add: observerCallback_def)

lemma observerCallback_keeps: "revealVisible s \<subseteq> revealVisible (observerCallback es s)"
proof (induction es arbitrary: s)
  case Nil
  show ?case by simp
next
  case (Cons e es)
  have "revealVisible s \<subseteq> revealVisible (onEntry s e)"
    by (cases e) (auto simp: onEntry_def)
  with Cons.IH [of "onEntry s e"] show ?case by auto
qed

text \<open>The callback on one entry for each element of \<open>ys\<close>.\<close>

lemma observerCallback_entries:
  "observerCallback (map (\<lambda>x. (x, x \<in> V)) ys) s =
     s\<lparr>revealVisible := revealVisible s \<union> (set ys \<inter> V),
       revealed := revealed s @ filter (\<lambda>x. x \<in> V) ys,
       observed := filter (\<lambda>x. x \<notin> set ys \<inter> V) (observed s)\<rparr>"
proof (induction ys arbitrary: s)
  case Nil
  show ?case by simp
next
  case (Cons y ys)
  show ?case
  proof (cases "y \<in> V")
    case True
    have "filter (\<lambda>x. x \<notin> set ys \<inter> V) (removeAll y (observed s)) =
        filter (\<lambda>x. x \<notin> set (y # ys) \<inter> V) (observed s)"
      using True by (induction "observed s") (auto simp: removeAll_filter_not_eq intro: filter_cong)
    with True show ?thesis
      by (simp add: Cons.IH onEntry_def Un_assoc)
  next
    case False
    have "filter (\<lambda>x. x \<notin> set ys \<inter> V) (observed s) =
        filter (\<lambda>x. x \<notin> set (y # ys) \<inter> V) (observed s)"
      using False by (auto intro: filter_cong)
    with False show ?thesis
      by (simp add: Cons.IH onEntry_def)
  qed
qed

lemma notify_eq:
  "notify s v =
     s\<lparr>revealVisible := revealVisible s \<union> (set (observed s) \<inter> set v),
       revealed := revealed s @ filter (\<lambda>x. x \<in> set v) (observed s),
       observed := filter (\<lambda>x. x \<notin> set v) (observed s)\<rparr>"
proof -
  have "filter (\<lambda>x. x \<notin> set (observed s) \<inter> set v) (observed s) =
      filter (\<lambda>x. x \<notin> set v) (observed s)"
    by (auto intro: filter_cong)
  then show ?thesis
    by (simp add: notify_def observerCallback_entries)
qed

lemma scroll_run_Nil [simp]: "scroll_run s [] = s"
  and scroll_run_Cons [simp]: "scroll_run s (v # vs) = scroll_run (notify s v) vs"
  by (simp_all add: scroll_run_def)

lemma scroll_run_append: "scroll_run s (us @ vs) = scroll_run (scroll_run s us) vs"
  by (simp add: scroll_run_def)

lemma scroll_run_eq:
  "distinct (observed s) \<Longrightarrow>
   observed (scroll_run s vs) = filter (\<lambda>x. \<forall>v\<in>set vs. x \<notin> set v) (observed s) \<and>
   revealVisible (scroll_run s vs) =
     revealVisible s \<union> {x \<in> set (observed s). \<exists>v\<in>set vs. x \<in> set v} \<and>
   (\<forall>x. count_list (revealed (scroll_run s vs)) x =
      count_list (revealed s) x +
      (if x \<in> set (observed s) \<and> (\<exists>v\<in>set vs. x \<in> set v) then 1 else 0))"
proof (induction vs arbitrary: s)
  case Nil
  show ?case by simp
next
  case (Cons v vs)
  let ?t = "notify s v"
  have o: "observed ?t = filter (\<lambda>x. x \<notin> set v) (observed s)"
    and r: "revealed ?t = revealed s @ filter (\<lambda>x. x \<in> set v) (observed s)"
    and rv: "revealVisible ?t = revealVisible s \<union> (set (observed s) \<inter> set v)"
    by (simp_all add: notify_eq)
  have d: "distinct (observed ?t)" using Cons.prems by (simp add: o)
  note IH = Cons.IH [OF d]
  have 1: "observed (scroll_run s (v # vs)) =
      filter (\<lambda>x. \<forall>u\<in>set (v # vs). x \<notin> set u) (observed s)"
    using IH by (auto simp: o intro: filter_cong)
  have 2: "revealVisible (scroll_run s (v # vs)) =
      revealVisible s \<union> {x \<in> set (observed s). \<exists>u\<in>set (v # vs). x \<in> set u}"
    using IH by (auto simp: o rv)
  have 3: "count_list (revealed (scroll_run s (v # vs))) x =
      count_list (revealed s) x +
      (if x \<in> set (observed s) \<and> (\<exists>u\<in>set (v # vs). x \<in> set u) then 1 else 0)" for x
  proof -
    have c: "count_list (filter (\<lambda>x. x \<in> set v) (observed s)) x =
        (if x \<in> set (observed s) \<and> x \<in> set v then 1 else 0)"
      using Cons.prems by (simp add: count_list_distinct)
    from IH have "count_list (revealed (scroll_run ?t vs)) x =
        count_list (revealed ?t) x +
        (if x \<in> set (observed ?t) \<and> (\<exists>u\<in>set vs. x \<in> set u) then 1 else 0)"
      by blast
    then show ?thesis
      by (simp add: r c o)
  qed
  from 1 2 3 show ?case by blast
qed

lemma init_observe:
  "distinct (observed s) \<Longrightarrow>
   distinct (observed (foldl (\<lambda>s x. observe x (s\<lparr>revealClass := insert x (revealClass s)\<rparr>)) s xs)) \<and>
   set (observed (foldl (\<lambda>s x. observe x (s\<lparr>revealClass := insert x (revealClass s)\<rparr>)) s xs)) =
     set (observed s) \<union> set xs \<and>
   revealed (foldl (\<lambda>s x. observe x (s\<lparr>revealClass := insert x (revealClass s)\<rparr>)) s xs) =
     revealed s \<and>
   revealVisible (foldl (\<lambda>s x. observe x (s\<lparr>revealClass := insert x (revealClass s)\<rparr>)) s xs) =
     revealVisible s"
proof (induction xs arbitrary: s)
  case Nil
  then show ?case by simp
next
  case (Cons x xs)
  let ?t = "observe x (s\<lparr>revealClass := insert x (revealClass s)\<rparr>)"
  have t: "distinct (observed ?t)" "set (observed ?t) = insert x (set (observed s))"
    "revealed ?t = revealed s" "revealVisible ?t = revealVisible s"
    using Cons.prems by (auto simp: observe_def)
  from Cons.IH [OF t(1)] t show ?case by simp
qed

lemma initScrollAnimations_observed:
  "distinct (observed (initScrollAnimations True xs)) \<and>
   set (observed (initScrollAnimations True xs)) = set xs \<and>
   revealed (initScrollAnimations True xs) = [] \<and>
   revealVisible (initScrollAnimations True xs) = {}"
proof -
  let ?s0 = "\<lparr>observed = [], revealClass = {}, revealVisible = {}, revealStyles = False,
      revealed = []\<rparr>"
  have "distinct (observed ?s0)" by simp
  from init_observe [OF this, of xs] show ?thesis
    by (simp add: initScrollAnimations_def)
qed

text \<open>
  Claim C7.  For every observed element and every sequence of viewport changes, line 424
  has run for the element exactly once if it has intersected the viewport in one of
  them, however often it left and came back, and not at all otherwise; the element has
  the class \<open>reveal-visible\<close> exactly from its first intersection on, it is observed
  exactly until then, and no run of the observer callback, on whatever entries, takes
  the class away.
\<close>

theorem reveal_exactly_once:
  "x \<in> set animatedElements \<Longrightarrow>
   count_list (revealed (scroll_run (initScrollAnimations True animatedElements) views)) x =
     (if \<exists>v\<in>set views. x \<in> set v then 1 else 0) \<and>
   (x \<in> revealVisible (scroll_run (initScrollAnimations True animatedElements) views) \<longleftrightarrow>
      (\<exists>v\<in>set views. x \<in> set v)) \<and>
   (x \<in> set (observed (scroll_run (initScrollAnimations True animatedElements) views)) \<longleftrightarrow>
      \<not> (\<exists>v\<in>set views. x \<in> set v)) \<and>
   revealVisible (scroll_run (initScrollAnimations True animatedElements) views) \<subseteq>
     revealVisible (observerCallback entries
       (scroll_run (initScrollAnimations True animatedElements) views))"
proof -
  assume x: "x \<in> set animatedElements"
  let ?s = "initScrollAnimations True animatedElements"
  note i = initScrollAnimations_observed [of animatedElements]
  then have d: "distinct (observed ?s)" by simp
  note r = scroll_run_eq [OF d, of views]
  have 1: "count_list (revealed (scroll_run ?s views)) x =
     (if \<exists>v\<in>set views. x \<in> set v then 1 else 0)"
    using r i x by simp
  have 2: "x \<in> revealVisible (scroll_run ?s views) \<longleftrightarrow> (\<exists>v\<in>set views. x \<in> set v)"
    using r i x by simp
  have 3: "x \<in> set (observed (scroll_run ?s views)) \<longleftrightarrow> \<not> (\<exists>v\<in>set views. x \<in> set v)"
    using r i x by simp
  from 1 2 3 observerCallback_keeps show ?thesis by blast
qed

theorem reveal_exactly_once_witness:
  "count_list (revealed (scroll_run (initScrollAnimations True [1, 2, 3])
     [[], [2], [], [2, 3], [2], []])) 2 = 1 \<and>
   2 \<in> revealVisible (scroll_run (initScrollAnimations True [1, 2, 3])
     [[], [2], [], [2, 3], [2], []]) \<and>
   2 \<notin> set (observed (scroll_run (initScrollAnimations True [1, 2, 3])
     [[], [2], [], [2, 3], [2], []])) \<and>
   count_list (revealed (scroll_run (initScrollAnimations True [1, 2, 3])
     [[], [2], [], [2, 3], [2], []])) 1 = 0 \<and>
   1 \<in> set (observed (scroll_run (initScrollAnimations True [1, 2, 3])
     [[], [2], [], [2, 3], [2], []]))"
  using reveal_exactly_once [of 2 "[1, 2, 3]" "[[], [2], [], [2, 3], [2], []]" "[]"]
    reveal_exactly_once [of 1 "[1, 2, 3]" "[[], [2], [], [2, 3], [2], []]" "[]"]
  by simp


end
